theory Spec2Isabelle
  imports Main
begin

section \<open>Data model (posts/models.py)\<close>

text \<open>
  Every model class is a record of its columns; a foreign key is the primary key of the
  row it points to. Rows carry the automatic primary key \<open>id\<close> as \<open>category_id\<close>,
  \<open>tag_id\<close>, \<open>post_id\<close>, \<open>comment_id\<close>. The columns of \<open>Comment\<close> keep their
  names; the columns of \<open>Post\<close> that share a name with one of \<open>Comment\<close> are
  prefixed with \<open>post_\<close>. Time stamps are ticks of a logical clock.
\<close>

record User =
  user_id :: nat
  username :: string

record Category =
  category_id :: nat
  category_name :: string

record Tag =
  tag_id :: nat
  tag_name :: string

record Post =
  post_id :: nat
  title :: string
  post_content :: string
  post_category :: "nat option"
  post_tag :: "nat list"
  post_created_at :: nat
  post_updated_at :: nat
  post_author :: nat

record Comment =
  comment_id :: nat
  post :: nat
  content :: string
  author :: nat
  parent :: "nat option"
  created_at :: nat
  updated_at :: nat

text \<open>
  The entity store: one table per model, each a list of rows in the order in which the
  rows were inserted, and the counters of the automatic primary keys. An unordered
  query (\<open>objects.all()\<close>, \<open>filter\<close>, a reverse relation) scans a table in this order.
\<close>

record store =
  users :: "User list"
  categories :: "Category list"
  tags :: "Tag list"
  posts :: "Post list"
  comments :: "Comment list"
  next_category_id :: nat
  next_tag_id :: nat
  next_post_id :: nat
  next_comment_id :: nat

section \<open>Requests and responses\<close>

datatype http_method = GET | HEAD | OPTIONS | POST | PUT | PATCH | DELETE

text \<open>A member of the request body: absent, \<open>null\<close>, or a value.\<close>

datatype 'a field_in = Missing | Null | Given 'a

text \<open>
  A request: its method, \<open>request.user\<close> (the primary key of the authenticated user,
  \<open>None\<close> for an anonymous caller), the \<open>pk\<close> of a detail route (\<open>None\<close> on the list
  route), the query parameters \<open>post_id\<close> and \<open>page\<close>, the time of the request and the
  body.
\<close>

record 'd request =
  request_method :: http_method
  user :: "nat option"
  pk :: "nat option"
  post_id_param :: "nat option"
  page :: "nat option"
  now :: nat
  data :: 'd

record comment_data =
  cd_post :: "string field_in"
  cd_content :: "string field_in"
  cd_parent :: "nat field_in"
  cd_author :: "string field_in"

record post_data =
  pd_title :: "string field_in"
  pd_content :: "string field_in"
  pd_category :: "string field_in"
  pd_tag :: "string list field_in"
  pd_author :: "string field_in"

record name_data =
  nd_name :: "string field_in"

datatype status =
    HTTP_200_OK | HTTP_201_CREATED | HTTP_204_NO_CONTENT | HTTP_400_BAD_REQUEST
  | HTTP_403_FORBIDDEN | HTTP_404_NOT_FOUND | HTTP_405_METHOD_NOT_ALLOWED
  | HTTP_500_INTERNAL_SERVER_ERROR

datatype field_error = Required | NotNull | Blank | DoesNotExist | MaxLength | Unique

datatype exn = MultipleObjectsReturned | ValueError | IntegrityError

text \<open>The representation of a comment (\<open>CommentSerializer.Meta.fields\<close>).\<close>

datatype comment_repr =
  CommentRepr (r_id: nat) (r_post: string) (r_content: string) (r_author: string)
    (r_parent: "nat option") (r_created_at: nat) (r_updated_at: nat)
    (r_replies: "comment_repr list")

text \<open>The representation of a post (\<open>PostSerializer.Meta.fields\<close>).\<close>

record post_repr =
  pr_id :: nat
  pr_title :: string
  pr_content :: string
  pr_author :: string
  pr_category :: "string option"
  pr_tag :: "string list"
  pr_created_at :: nat
  pr_updated_at :: nat

datatype body =
    Empty
  | Errors "(string \<times> field_error) list"
  | Exception exn
  | CommentBody comment_repr
  | CommentPage nat "comment_repr list"
  | PostBody post_repr
  | PostPage nat "post_repr list"
  | NameBody nat string
  | NameList "(nat \<times> string) list"

type_synonym response = "status \<times> body"

section \<open>Permissions (posts/permissions.py)\<close>

definition SAFE_METHODS :: "http_method list" where
  "SAFE_METHODS = [GET, HEAD, OPTIONS]"

definition has_permission :: "'d request \<Rightarrow> bool" where
  "has_permission r = (if request_method r \<in> set SAFE_METHODS then True else user r \<noteq> None)"

text \<open>
  \<open>obj.author\<close> is read through \<open>author_of\<close>: the class is used for posts and for
  comments alike.
\<close>

definition has_object_permission :: "('o \<Rightarrow> nat) \<Rightarrow> 'd request \<Rightarrow> 'o \<Rightarrow> bool" where
  "has_object_permission author_of r obj =
     (if request_method r \<in> set SAFE_METHODS then True else Some (author_of obj) = user r)"

text \<open>A permission class: its request-level and its object-level check.\<close>

type_synonym ('d, 'o) permission = "('d request \<Rightarrow> bool) \<times> ('d request \<Rightarrow> 'o \<Rightarrow> bool)"

definition IsAuthorOrReadOnly :: "('o \<Rightarrow> nat) \<Rightarrow> ('d, 'o) permission" where
  "IsAuthorOrReadOnly author_of = (has_permission, has_object_permission author_of)"

definition AllowAny :: "('d, 'o) permission" where
  "AllowAny = ((\<lambda>r. True), (\<lambda>r obj. True))"

text \<open>
  Modelled from the spec: the settings module of the project is not among the sources.
  A view set that declares no \<open>permission_classes\<close> takes the configured default; the
  spec describes the category and tag endpoints as plain CRUD with no special logic,
  which is the framework's own default, \<open>AllowAny\<close>.
\<close>

definition DEFAULT_PERMISSION_CLASSES :: "('d, 'o) permission list" where
  "DEFAULT_PERMISSION_CLASSES = [AllowAny]"

definition check_permissions :: "('d, 'o) permission list \<Rightarrow> 'd request \<Rightarrow> bool" where
  "check_permissions classes r = list_all (\<lambda>p. fst p r) classes"

definition check_object_permissions ::
    "('d, 'o) permission list \<Rightarrow> 'd request \<Rightarrow> 'o \<Rightarrow> bool" where
  "check_object_permissions classes r obj = list_all (\<lambda>p. snd p r obj) classes"

section \<open>Pagination (posts/pagination.py)\<close>

definition PostPagination_page_size :: nat where
  "PostPagination_page_size = 10"

definition CommentPagination_page_size :: nat where
  "CommentPagination_page_size = 20"

definition num_pages :: "nat \<Rightarrow> nat \<Rightarrow> nat" where
  "num_pages page_size count = (max 1 count + page_size - 1) div page_size"

text \<open>
  One page of a query: page numbers start at 1, the first page exists even when the
  query is empty, and a page number out of range is \<open>None\<close> (answered with 404).
\<close>

definition paginate :: "nat \<Rightarrow> nat option \<Rightarrow> 'a list \<Rightarrow> 'a list option" where
  "paginate page_size pg xs =
     (let number = (case pg of None \<Rightarrow> 1 | Some k \<Rightarrow> k) in
      if number < 1 \<or> num_pages page_size (length xs) < number then None
      else Some (take page_size (drop ((number - 1) * page_size) xs)))"

section \<open>Queries\<close>

datatype 'a got = Got 'a | NoMatch | ManyMatch

text \<open>\<open>queryset.get(...)\<close>: the one matching row, \<open>DoesNotExist\<close> or \<open>MultipleObjectsReturned\<close>.\<close>

definition queryset_get :: "('a \<Rightarrow> bool) \<Rightarrow> 'a list \<Rightarrow> 'a got" where
  "queryset_get P queryset =
     (case filter P queryset of [] \<Rightarrow> NoMatch | [x] \<Rightarrow> Got x | x # y # zs \<Rightarrow> ManyMatch)"

text \<open>
  Related rows read through a foreign key. The store's foreign key constraints exclude
  a dangling key; the empty default stands for that case.
\<close>

definition post_title :: "store \<Rightarrow> nat \<Rightarrow> string" where
  "post_title st i = (case find (\<lambda>p. post_id p = i) (posts st) of Some p \<Rightarrow> title p | None \<Rightarrow> [])"

definition username_of :: "store \<Rightarrow> nat \<Rightarrow> string" where
  "username_of st i = (case find (\<lambda>u. user_id u = i) (users st) of Some u \<Rightarrow> username u | None \<Rightarrow> [])"

definition category_name_of :: "store \<Rightarrow> nat \<Rightarrow> string" where
  "category_name_of st i =
     (case find (\<lambda>c. category_id c = i) (categories st) of Some c \<Rightarrow> category_name c | None \<Rightarrow> [])"

definition tag_name_of :: "store \<Rightarrow> nat \<Rightarrow> string" where
  "tag_name_of st i = (case find (\<lambda>t. tag_id t = i) (tags st) of Some t \<Rightarrow> tag_name t | None \<Rightarrow> [])"

text \<open>The reverse relation \<open>comment.replies\<close> (\<open>related_name='replies'\<close> of \<open>parent\<close>).\<close>

definition replies :: "store \<Rightarrow> Comment \<Rightarrow> Comment list" where
  "replies st c = filter (\<lambda>k. parent k = Some (comment_id c)) (comments st)"

section \<open>Serializers (posts/serializers.py)\<close>

subsection \<open>Read path\<close>

text \<open>
  \<open>CommentSerializer.to_representation\<close>: the field \<open>replies\<close> is a \<open>RecursiveField\<close>
  with \<open>many=True\<close>, which builds a new \<open>CommentSerializer\<close> for every row of
  \<open>comment.replies\<close> and takes its data. The source puts no bound on the depth. The
  first argument counts the nested calls that are allowed: \<open>None\<close> means that the
  recursion has not returned within that many levels.
\<close>

fun to_representation :: "nat \<Rightarrow> store \<Rightarrow> Comment \<Rightarrow> comment_repr option" where
  "to_representation 0 st c = None"
| "to_representation (Suc n) st c =
     (case those (map (to_representation n st) (replies st c)) of
        None \<Rightarrow> None
      | Some rs \<Rightarrow>
          Some (CommentRepr (comment_id c) (post_title st (post c)) (content c)
                  (username_of st (author c)) (parent c) (created_at c) (updated_at c) rs))"

definition post_to_representation :: "store \<Rightarrow> Post \<Rightarrow> post_repr" where
  "post_to_representation st p =
     \<lparr>pr_id = post_id p, pr_title = title p, pr_content = post_content p,
      pr_author = username_of st (post_author p),
      pr_category = map_option (category_name_of st) (post_category p),
      pr_tag = map (tag_name_of st) (post_tag p),
      pr_created_at = post_created_at p, pr_updated_at = post_updated_at p\<rparr>"

subsection \<open>Write path: field validation\<close>

text \<open>
  The outcome of one field: a value, nothing (the member is absent and not required),
  a validation error, or an exception that the serializer does not catch.
\<close>

datatype 'a outcome = Valid 'a | Omitted | Fail field_error | Raise exn

definition whitespace :: "char \<Rightarrow> bool" where
  "whitespace c =
     (c \<in> set [CHR 0x09, CHR 0x0A, CHR 0x0B, CHR 0x0C, CHR 0x0D,
               CHR 0x1C, CHR 0x1D, CHR 0x1E, CHR 0x1F, CHR 0x20])"

definition strip :: "string \<Rightarrow> string" where
  "strip s = rev (dropWhile whitespace (rev (dropWhile whitespace s)))"

text \<open>
  A \<open>CharField\<close> (required, blank not allowed, white space trimmed) with an optional
  \<open>max_length\<close>. Under \<open>partial\<close> (PATCH) an absent member is skipped.
\<close>

definition char_field :: "bool \<Rightarrow> nat option \<Rightarrow> string field_in \<Rightarrow> string outcome" where
  "char_field partial maxlen v =
     (case v of
        Missing \<Rightarrow> (if partial then Omitted else Fail Required)
      | Null \<Rightarrow> Fail NotNull
      | Given s \<Rightarrow>
          (if strip s = [] then Fail Blank
           else (case maxlen of
                   None \<Rightarrow> Valid (strip s)
                 | Some m \<Rightarrow> (if m < length (strip s) then Fail MaxLength else Valid (strip s)))))"

text \<open>
  A \<open>SlugRelatedField\<close> over a query: \<open>queryset.get(slug=value)\<close>, where only
  \<open>DoesNotExist\<close> is turned into a validation error. The empty string counts as \<open>null\<close>.
\<close>

definition slug_related_field ::
    "bool \<Rightarrow> ('a \<Rightarrow> string) \<Rightarrow> 'a list \<Rightarrow> string field_in \<Rightarrow> 'a outcome" where
  "slug_related_field partial slug queryset v =
     (case v of
        Missing \<Rightarrow> (if partial then Omitted else Fail Required)
      | Null \<Rightarrow> Fail NotNull
      | Given s \<Rightarrow>
          (if s = [] then Fail NotNull
           else (case queryset_get (\<lambda>x. slug x = s) queryset of
                   NoMatch \<Rightarrow> Fail DoesNotExist
                 | Got x \<Rightarrow> Valid x
                 | ManyMatch \<Rightarrow> Raise MultipleObjectsReturned)))"

fun many_slug_get :: "('a \<Rightarrow> string) \<Rightarrow> 'a list \<Rightarrow> string list \<Rightarrow> 'a list outcome" where
  "many_slug_get slug queryset [] = Valid []"
| "many_slug_get slug queryset (s # ss) =
     (case queryset_get (\<lambda>x. slug x = s) queryset of
        NoMatch \<Rightarrow> Fail DoesNotExist
      | ManyMatch \<Rightarrow> Raise MultipleObjectsReturned
      | Got x \<Rightarrow>
          (case many_slug_get slug queryset ss of
             Valid xs \<Rightarrow> Valid (x # xs)
           | other \<Rightarrow> other))"

text \<open>A \<open>SlugRelatedField\<close> with \<open>many=True\<close>.\<close>

definition many_slug_related_field ::
    "bool \<Rightarrow> ('a \<Rightarrow> string) \<Rightarrow> 'a list \<Rightarrow> string list field_in \<Rightarrow> 'a list outcome" where
  "many_slug_related_field partial slug queryset v =
     (case v of
        Missing \<Rightarrow> (if partial then Omitted else Fail Required)
      | Null \<Rightarrow> Fail NotNull
      | Given ss \<Rightarrow> many_slug_get slug queryset ss)"

text \<open>
  \<open>CommentSerializer.parent\<close>: a \<open>PrimaryKeyRelatedField\<close> over all comments with
  \<open>allow_null=True\<close> and \<open>required=False\<close>.
\<close>

definition parent_field :: "Comment list \<Rightarrow> nat field_in \<Rightarrow> nat option outcome" where
  "parent_field queryset v =
     (case v of
        Missing \<Rightarrow> Omitted
      | Null \<Rightarrow> Valid None
      | Given i \<Rightarrow>
          (case queryset_get (\<lambda>c. comment_id c = i) queryset of
             NoMatch \<Rightarrow> Fail DoesNotExist
           | Got c \<Rightarrow> Valid (Some (comment_id c))
           | ManyMatch \<Rightarrow> Raise MultipleObjectsReturned))"

fun raised :: "'a outcome \<Rightarrow> exn option" where
  "raised (Raise e) = Some e"
| "raised other = None"

fun failure :: "string \<Rightarrow> 'a outcome \<Rightarrow> (string \<times> field_error) list" where
  "failure name (Fail e) = [(name, e)]"
| "failure name other = []"

fun supplied :: "'a outcome \<Rightarrow> 'a option" where
  "supplied (Valid x) = Some x"
| "supplied other = None"

text \<open>
  \<open>CommentSerializer.is_valid\<close>: the writable fields in the order of \<open>Meta.fields\<close>
  (\<open>post\<close>, \<open>content\<close>, \<open>parent\<close>; \<open>author\<close> and \<open>replies\<close> are read-only, and the
  member \<open>author\<close> of the body is never read). An exception ends the run at once; the
  validation errors of all fields are collected.
\<close>

definition CommentSerializer_is_valid ::
    "store \<Rightarrow> bool \<Rightarrow> comment_data \<Rightarrow>
     exn + ((string \<times> field_error) list + (Post option \<times> string option \<times> nat option option))" where
  "CommentSerializer_is_valid st partial d =
     (let p = slug_related_field partial title (posts st) (cd_post d);
          c = char_field partial None (cd_content d);
          a = parent_field (comments st) (cd_parent d);
          errors = failure ''post'' p @ failure ''content'' c @ failure ''parent'' a
      in case raised p of
           Some e \<Rightarrow> Inl e
         | None \<Rightarrow>
             (case raised a of
                Some e \<Rightarrow> Inl e
              | None \<Rightarrow>
                  Inr (if errors = [] then Inr (supplied p, supplied c, supplied a)
                       else Inl errors)))"

text \<open>
  \<open>PostSerializer.is_valid\<close>: the writable fields \<open>title\<close> (at most 300 characters),
  \<open>content\<close>, \<open>category\<close> (by name) and \<open>tag\<close> (by names); \<open>author\<close> is read-only.
\<close>

definition PostSerializer_is_valid ::
    "store \<Rightarrow> bool \<Rightarrow> post_data \<Rightarrow>
     exn + ((string \<times> field_error) list +
            (string option \<times> string option \<times> Category option \<times> Tag list option))" where
  "PostSerializer_is_valid st partial d =
     (let t = char_field partial (Some 300) (pd_title d);
          c = char_field partial None (pd_content d);
          g = slug_related_field partial category_name (categories st) (pd_category d);
          ts = many_slug_related_field partial tag_name (tags st) (pd_tag d);
          errors = failure ''title'' t @ failure ''content'' c @ failure ''category'' g
                   @ failure ''tag'' ts
      in case raised g of
           Some e \<Rightarrow> Inl e
         | None \<Rightarrow>
             (case raised ts of
                Some e \<Rightarrow> Inl e
              | None \<Rightarrow>
                  Inr (if errors = [] then Inr (supplied t, supplied c, supplied g, supplied ts)
                       else Inl errors)))"

text \<open>
  The serializers of \<open>Category\<close> and \<open>Tag\<close> (\<open>fields = '__all__'\<close>): the one writable
  field is \<open>name\<close>, with the model's \<open>max_length\<close> and its uniqueness among the other rows.
\<close>

definition name_is_valid ::
    "nat \<Rightarrow> string list \<Rightarrow> bool \<Rightarrow> name_data \<Rightarrow> (string \<times> field_error) list + string option" where
  "name_is_valid maxlen others partial d =
     (case char_field partial (Some maxlen) (nd_name d) of
        Valid s \<Rightarrow> (if s \<in> set others then Inl [(''name'', Unique)] else Inr (Some s))
      | Omitted \<Rightarrow> Inr None
      | Fail e \<Rightarrow> Inl [(''name'', e)]
      | Raise e \<Rightarrow> Inr None)"

section \<open>Deletion (on_delete of posts/models.py)\<close>

text \<open>
  The comments whose \<open>parent\<close> is one of \<open>batch\<close>: the rows that \<open>on_delete=CASCADE\<close> of
  \<open>Comment.parent\<close> sends to the collector.
\<close>

definition related_objects :: "store \<Rightarrow> nat list \<Rightarrow> nat list" where
  "related_objects st batch =
     map comment_id
       (filter (\<lambda>c. case parent c of None \<Rightarrow> False | Some p \<Rightarrow> p \<in> set batch) (comments st))"

definition new_objs :: "nat list \<Rightarrow> nat list \<Rightarrow> nat list" where
  "new_objs seen objs = filter (\<lambda>i. i \<notin> set seen) (remdups objs)"

text \<open>
  The deletion collector on comments: it adds the rows it has not seen, stops when
  there is none, and collects the replies of the rows it added.
\<close>

function collect :: "store \<Rightarrow> nat list \<Rightarrow> nat list \<Rightarrow> nat list" where
  "collect st seen objs =
     (if new_objs seen objs = [] then seen
      else collect st (seen @ new_objs seen objs) (related_objects st (new_objs seen objs)))"
  by pat_completeness auto
termination
proof (relation "measure (\<lambda>(st, seen, objs). card ((set (map comment_id (comments st)) \<union> set objs) - set seen))")
  show "wf (measure (\<lambda>(st, seen, objs). card ((set (map comment_id (comments st)) \<union> set objs) - set seen)))"
    by simp
next
  fix st :: store and seen objs :: "nat list"
  assume ne: "new_objs seen objs \<noteq> []"
  let ?ids = "set (map comment_id (comments st))"
  let ?new = "set (new_objs seen objs)"
  have new: "?new = set objs - set seen"
    by (auto simp: new_objs_def)
  have rel: "set (related_objects st (new_objs seen objs)) \<subseteq> ?ids"
    by (auto simp: related_objects_def)
  from ne obtain x where x: "x \<in> ?new"
    by (cases "new_objs seen objs") auto
  have "(?ids \<union> set (related_objects st (new_objs seen objs))) - set (seen @ new_objs seen objs)
          \<subset> (?ids \<union> set objs) - set seen"
    using x rel new by auto
  then have "card ((?ids \<union> set (related_objects st (new_objs seen objs))) - set (seen @ new_objs seen objs))
          < card ((?ids \<union> set objs) - set seen)"
    by (intro psubset_card_mono) auto
  then show "((st, seen @ new_objs seen objs, related_objects st (new_objs seen objs)), (st, seen, objs))
          \<in> measure (\<lambda>(st, seen, objs). card ((set (map comment_id (comments st)) \<union> set objs) - set seen))"
    by simp
qed

text \<open>\<open>comment.delete()\<close>: the comment and everything the collector reaches from it.\<close>

definition delete_comment :: "store \<Rightarrow> Comment \<Rightarrow> store" where
  "delete_comment st c =
     (let ids = collect st [] [comment_id c]
      in st\<lparr>comments := filter (\<lambda>k. comment_id k \<notin> set ids) (comments st)\<rparr>)"

text \<open>
  \<open>post.delete()\<close>: \<open>on_delete=CASCADE\<close> of \<open>Comment.post\<close> sends the comments of the
  post to the collector.
\<close>

definition delete_post :: "store \<Rightarrow> Post \<Rightarrow> store" where
  "delete_post st p =
     (let ids = collect st [] (map comment_id (filter (\<lambda>k. post k = post_id p) (comments st)))
      in st\<lparr>posts := filter (\<lambda>q. post_id q \<noteq> post_id p) (posts st),
            comments := filter (\<lambda>k. comment_id k \<notin> set ids) (comments st)\<rparr>)"

text \<open>\<open>category.delete()\<close>: \<open>on_delete=SET_NULL\<close> of \<open>Post.category\<close>.\<close>

definition delete_category :: "store \<Rightarrow> Category \<Rightarrow> store" where
  "delete_category st g =
     st\<lparr>categories := filter (\<lambda>h. category_id h \<noteq> category_id g) (categories st),
        posts := map (\<lambda>p. if post_category p = Some (category_id g)
                           then p\<lparr>post_category := None\<rparr> else p) (posts st)\<rparr>"

text \<open>\<open>tag.delete()\<close>: the tag leaves the tag set of every post.\<close>

definition delete_tag :: "store \<Rightarrow> Tag \<Rightarrow> store" where
  "delete_tag st t =
     st\<lparr>tags := filter (\<lambda>s. tag_id s \<noteq> tag_id t) (tags st),
        posts := map (\<lambda>p. p\<lparr>post_tag := filter (\<lambda>i. i \<noteq> tag_id t) (post_tag p)\<rparr>) (posts st)\<rparr>"

section \<open>Views (posts/views.py)\<close>

text \<open>
  A view set answers a request with a response and the store it leaves. Every request
  first passes the request-level checks of the permission classes; a request that
  fails them is answered with 403 before any object is loaded.
\<close>

text \<open>
  \<open>get_object\<close>: the row of the query with the primary key of the route (404 when there
  is none), then the object-level checks of the permission classes (403).
\<close>

definition get_object ::
    "('d, 'o) permission list \<Rightarrow> ('o \<Rightarrow> nat) \<Rightarrow> 'o list \<Rightarrow> 'd request \<Rightarrow> nat \<Rightarrow> response + 'o" where
  "get_object classes pk_of queryset r i =
     (case queryset_get (\<lambda>x. pk_of x = i) queryset of
        NoMatch \<Rightarrow> Inl (HTTP_404_NOT_FOUND, Empty)
      | ManyMatch \<Rightarrow> Inl (HTTP_500_INTERNAL_SERVER_ERROR, Exception MultipleObjectsReturned)
      | Got obj \<Rightarrow>
          (if check_object_permissions classes r obj then Inr obj
           else Inl (HTTP_403_FORBIDDEN, Empty)))"

subsection \<open>CommentViewSet\<close>

definition CommentViewSet_permission_classes :: "(comment_data, Comment) permission list" where
  "CommentViewSet_permission_classes = [IsAuthorOrReadOnly author]"

definition get_queryset :: "store \<Rightarrow> 'd request \<Rightarrow> Comment list" where
  "get_queryset st r =
     (case post_id_param r of
        None \<Rightarrow> comments st
      | Some i \<Rightarrow> filter (\<lambda>c. post c = i) (comments st))"

text \<open>
  \<open>perform_create\<close>: \<open>serializer.save(author=self.request.user)\<close> inserts a row from the
  validated data and the requesting user.
\<close>

definition CommentViewSet_perform_create ::
    "store \<Rightarrow> comment_data request \<Rightarrow> Post option \<times> string option \<times> nat option option \<Rightarrow>
     exn + (Comment \<times> store)" where
  "CommentViewSet_perform_create st r v =
     (case user r of
        None \<Rightarrow> Inl ValueError
      | Some u \<Rightarrow>
          (case v of
             (None, c, a) \<Rightarrow> Inl IntegrityError
           | (Some p, c, a) \<Rightarrow>
               (let new = \<lparr>comment_id = next_comment_id st, post = post_id p,
                            content = (case c of None \<Rightarrow> [] | Some x \<Rightarrow> x), author = u,
                            parent = (case a of None \<Rightarrow> None | Some x \<Rightarrow> x),
                            created_at = now r, updated_at = now r\<rparr>
                in Inr (new, st\<lparr>comments := comments st @ [new],
                                 next_comment_id := Suc (next_comment_id st)\<rparr>))))"

definition comment_create :: "nat \<Rightarrow> store \<Rightarrow> comment_data request \<Rightarrow> (response \<times> store) option" where
  "comment_create n st r =
     (case CommentSerializer_is_valid st False (data r) of
        Inl e \<Rightarrow> Some ((HTTP_500_INTERNAL_SERVER_ERROR, Exception e), st)
      | Inr (Inl errors) \<Rightarrow> Some ((HTTP_400_BAD_REQUEST, Errors errors), st)
      | Inr (Inr v) \<Rightarrow>
          (case CommentViewSet_perform_create st r v of
             Inl e \<Rightarrow> Some ((HTTP_500_INTERNAL_SERVER_ERROR, Exception e), st)
           | Inr (new, st') \<Rightarrow>
               map_option (\<lambda>rep. ((HTTP_201_CREATED, CommentBody rep), st'))
                 (to_representation n st' new)))"

definition comment_list :: "nat \<Rightarrow> store \<Rightarrow> comment_data request \<Rightarrow> (response \<times> store) option" where
  "comment_list n st r =
     (case paginate CommentPagination_page_size (page r) (get_queryset st r) of
        None \<Rightarrow> Some ((HTTP_404_NOT_FOUND, Empty), st)
      | Some rows \<Rightarrow>
          map_option (\<lambda>reps. ((HTTP_200_OK, CommentPage (length (get_queryset st r)) reps), st))
            (those (map (to_representation n st) rows)))"

definition comment_retrieve ::
    "nat \<Rightarrow> store \<Rightarrow> comment_data request \<Rightarrow> nat \<Rightarrow> (response \<times> store) option" where
  "comment_retrieve n st r i =
     (case get_object CommentViewSet_permission_classes comment_id (get_queryset st r) r i of
        Inl resp \<Rightarrow> Some (resp, st)
      | Inr obj \<Rightarrow>
          map_option (\<lambda>rep. ((HTTP_200_OK, CommentBody rep), st)) (to_representation n st obj))"

definition comment_update ::
    "nat \<Rightarrow> store \<Rightarrow> comment_data request \<Rightarrow> nat \<Rightarrow> bool \<Rightarrow> (response \<times> store) option" where
  "comment_update n st r i partial =
     (case get_object CommentViewSet_permission_classes comment_id (get_queryset st r) r i of
        Inl resp \<Rightarrow> Some (resp, st)
      | Inr obj \<Rightarrow>
          (case CommentSerializer_is_valid st partial (data r) of
             Inl e \<Rightarrow> Some ((HTTP_500_INTERNAL_SERVER_ERROR, Exception e), st)
           | Inr (Inl errors) \<Rightarrow> Some ((HTTP_400_BAD_REQUEST, Errors errors), st)
           | Inr (Inr (p, c, a)) \<Rightarrow>
               (let obj' = obj\<lparr>post := (case p of None \<Rightarrow> post obj | Some q \<Rightarrow> post_id q),
                                content := (case c of None \<Rightarrow> content obj | Some x \<Rightarrow> x),
                                parent := (case a of None \<Rightarrow> parent obj | Some x \<Rightarrow> x),
                                updated_at := now r\<rparr>;
                    st' = st\<lparr>comments :=
                               map (\<lambda>k. if comment_id k = comment_id obj then obj' else k)
                                 (comments st)\<rparr>
                in map_option (\<lambda>rep. ((HTTP_200_OK, CommentBody rep), st'))
                     (to_representation n st' obj'))))"

definition comment_destroy :: "store \<Rightarrow> comment_data request \<Rightarrow> nat \<Rightarrow> response \<times> store" where
  "comment_destroy st r i =
     (case get_object CommentViewSet_permission_classes comment_id (get_queryset st r) r i of
        Inl resp \<Rightarrow> (resp, st)
      | Inr obj \<Rightarrow> ((HTTP_204_NO_CONTENT, Empty), delete_comment st obj))"

text \<open>
  The routes of the router: list and create on the list route, retrieve, update,
  partial update and destroy on the detail route; HEAD is answered as GET, OPTIONS with
  the description of the endpoint, any other method with 405.
\<close>

definition CommentViewSet :: "nat \<Rightarrow> store \<Rightarrow> comment_data request \<Rightarrow> (response \<times> store) option" where
  "CommentViewSet n st r =
     (if \<not> check_permissions CommentViewSet_permission_classes r
      then Some ((HTTP_403_FORBIDDEN, Empty), st)
      else (case pk r of
              None \<Rightarrow>
                (case request_method r of
                   GET \<Rightarrow> comment_list n st r
                 | HEAD \<Rightarrow> comment_list n st r
                 | OPTIONS \<Rightarrow> Some ((HTTP_200_OK, Empty), st)
                 | POST \<Rightarrow> comment_create n st r
                 | PUT \<Rightarrow> Some ((HTTP_405_METHOD_NOT_ALLOWED, Empty), st)
                 | PATCH \<Rightarrow> Some ((HTTP_405_METHOD_NOT_ALLOWED, Empty), st)
                 | DELETE \<Rightarrow> Some ((HTTP_405_METHOD_NOT_ALLOWED, Empty), st))
            | Some i \<Rightarrow>
                (case request_method r of
                   GET \<Rightarrow> comment_retrieve n st r i
                 | HEAD \<Rightarrow> comment_retrieve n st r i
                 | OPTIONS \<Rightarrow> Some ((HTTP_200_OK, Empty), st)
                 | POST \<Rightarrow> Some ((HTTP_405_METHOD_NOT_ALLOWED, Empty), st)
                 | PUT \<Rightarrow> comment_update n st r i False
                 | PATCH \<Rightarrow> comment_update n st r i True
                 | DELETE \<Rightarrow> Some (comment_destroy st r i))))"

subsection \<open>PostViewSet\<close>

definition PostViewSet_permission_classes :: "(post_data, Post) permission list" where
  "PostViewSet_permission_classes = [IsAuthorOrReadOnly post_author]"

text \<open>
  \<open>Post.objects.all().order_by('-created_at')\<close>. The filter and search fields of the class
  take effect only through filter backends, which the settings module configures; it is
  not among the sources, and a request carries no such parameter.
\<close>

definition PostViewSet_queryset :: "store \<Rightarrow> Post list" where
  "PostViewSet_queryset st = rev (sort_key post_created_at (posts st))"

definition PostViewSet_perform_create ::
    "store \<Rightarrow> post_data request \<Rightarrow>
     string option \<times> string option \<times> Category option \<times> Tag list option \<Rightarrow> exn + (Post \<times> store)" where
  "PostViewSet_perform_create st r v =
     (case user r of
        None \<Rightarrow> Inl ValueError
      | Some u \<Rightarrow>
          (case v of
             (t, c, g, ts) \<Rightarrow>
               (let new = \<lparr>post_id = next_post_id st,
                            title = (case t of None \<Rightarrow> [] | Some x \<Rightarrow> x),
                            post_content = (case c of None \<Rightarrow> [] | Some x \<Rightarrow> x),
                            post_category = map_option category_id g,
                            post_tag = (case ts of None \<Rightarrow> [] | Some xs \<Rightarrow> remdups (map tag_id xs)),
                            post_created_at = now r, post_updated_at = now r,
                            post_author = u\<rparr>
                in Inr (new, st\<lparr>posts := posts st @ [new],
                                 next_post_id := Suc (next_post_id st)\<rparr>))))"

definition post_create :: "store \<Rightarrow> post_data request \<Rightarrow> response \<times> store" where
  "post_create st r =
     (case PostSerializer_is_valid st False (data r) of
        Inl e \<Rightarrow> ((HTTP_500_INTERNAL_SERVER_ERROR, Exception e), st)
      | Inr (Inl errors) \<Rightarrow> ((HTTP_400_BAD_REQUEST, Errors errors), st)
      | Inr (Inr v) \<Rightarrow>
          (case PostViewSet_perform_create st r v of
             Inl e \<Rightarrow> ((HTTP_500_INTERNAL_SERVER_ERROR, Exception e), st)
           | Inr (new, st') \<Rightarrow>
               ((HTTP_201_CREATED, PostBody (post_to_representation st' new)), st')))"

definition post_list :: "store \<Rightarrow> post_data request \<Rightarrow> response \<times> store" where
  "post_list st r =
     (case paginate PostPagination_page_size (page r) (PostViewSet_queryset st) of
        None \<Rightarrow> ((HTTP_404_NOT_FOUND, Empty), st)
      | Some rows \<Rightarrow>
          ((HTTP_200_OK, PostPage (length (posts st)) (map (post_to_representation st) rows)), st))"

definition post_retrieve :: "store \<Rightarrow> post_data request \<Rightarrow> nat \<Rightarrow> response \<times> store" where
  "post_retrieve st r i =
     (case get_object PostViewSet_permission_classes post_id (PostViewSet_queryset st) r i of
        Inl resp \<Rightarrow> (resp, st)
      | Inr obj \<Rightarrow> ((HTTP_200_OK, PostBody (post_to_representation st obj)), st))"

definition post_update :: "store \<Rightarrow> post_data request \<Rightarrow> nat \<Rightarrow> bool \<Rightarrow> response \<times> store" where
  "post_update st r i partial =
     (case get_object PostViewSet_permission_classes post_id (PostViewSet_queryset st) r i of
        Inl resp \<Rightarrow> (resp, st)
      | Inr obj \<Rightarrow>
          (case PostSerializer_is_valid st partial (data r) of
             Inl e \<Rightarrow> ((HTTP_500_INTERNAL_SERVER_ERROR, Exception e), st)
           | Inr (Inl errors) \<Rightarrow> ((HTTP_400_BAD_REQUEST, Errors errors), st)
           | Inr (Inr (t, c, g, ts)) \<Rightarrow>
               (let obj' = obj\<lparr>title := (case t of None \<Rightarrow> title obj | Some x \<Rightarrow> x),
                                post_content := (case c of None \<Rightarrow> post_content obj | Some x \<Rightarrow> x),
                                post_category :=
                                  (case g of None \<Rightarrow> post_category obj | Some x \<Rightarrow> Some (category_id x)),
                                post_tag :=
                                  (case ts of None \<Rightarrow> post_tag obj | Some xs \<Rightarrow> remdups (map tag_id xs)),
                                post_updated_at := now r\<rparr>;
                    st' = st\<lparr>posts := map (\<lambda>q. if post_id q = post_id obj then obj' else q) (posts st)\<rparr>
                in ((HTTP_200_OK, PostBody (post_to_representation st' obj')), st'))))"

definition post_destroy :: "store \<Rightarrow> post_data request \<Rightarrow> nat \<Rightarrow> response \<times> store" where
  "post_destroy st r i =
     (case get_object PostViewSet_permission_classes post_id (PostViewSet_queryset st) r i of
        Inl resp \<Rightarrow> (resp, st)
      | Inr obj \<Rightarrow> ((HTTP_204_NO_CONTENT, Empty), delete_post st obj))"

definition PostViewSet :: "store \<Rightarrow> post_data request \<Rightarrow> response \<times> store" where
  "PostViewSet st r =
     (if \<not> check_permissions PostViewSet_permission_classes r
      then ((HTTP_403_FORBIDDEN, Empty), st)
      else (case pk r of
              None \<Rightarrow>
                (case request_method r of
                   GET \<Rightarrow> post_list st r
                 | HEAD \<Rightarrow> post_list st r
                 | OPTIONS \<Rightarrow> ((HTTP_200_OK, Empty), st)
                 | POST \<Rightarrow> post_create st r
                 | PUT \<Rightarrow> ((HTTP_405_METHOD_NOT_ALLOWED, Empty), st)
                 | PATCH \<Rightarrow> ((HTTP_405_METHOD_NOT_ALLOWED, Empty), st)
                 | DELETE \<Rightarrow> ((HTTP_405_METHOD_NOT_ALLOWED, Empty), st))
            | Some i \<Rightarrow>
                (case request_method r of
                   GET \<Rightarrow> post_retrieve st r i
                 | HEAD \<Rightarrow> post_retrieve st r i
                 | OPTIONS \<Rightarrow> ((HTTP_200_OK, Empty), st)
                 | POST \<Rightarrow> ((HTTP_405_METHOD_NOT_ALLOWED, Empty), st)
                 | PUT \<Rightarrow> post_update st r i False
                 | PATCH \<Rightarrow> post_update st r i True
                 | DELETE \<Rightarrow> post_destroy st r i)))"

subsection \<open>CategoryViewSet and TagViewSet\<close>

text \<open>
  Neither class declares \<open>permission_classes\<close> or a pagination class: both take the
  default permission classes, and a listing is the whole table.
\<close>

definition CategoryViewSet_permission_classes :: "(name_data, Category) permission list" where
  "CategoryViewSet_permission_classes = DEFAULT_PERMISSION_CLASSES"

definition TagViewSet_permission_classes :: "(name_data, Tag) permission list" where
  "TagViewSet_permission_classes = DEFAULT_PERMISSION_CLASSES"

definition category_create :: "store \<Rightarrow> name_data request \<Rightarrow> response \<times> store" where
  "category_create st r =
     (case name_is_valid 100 (map category_name (categories st)) False (data r) of
        Inl errors \<Rightarrow> ((HTTP_400_BAD_REQUEST, Errors errors), st)
      | Inr v \<Rightarrow>
          (let new = \<lparr>category_id = next_category_id st,
                       category_name = (case v of None \<Rightarrow> [] | Some x \<Rightarrow> x)\<rparr>
           in ((HTTP_201_CREATED, NameBody (category_id new) (category_name new)),
               st\<lparr>categories := categories st @ [new],
                  next_category_id := Suc (next_category_id st)\<rparr>)))"

definition category_update :: "store \<Rightarrow> name_data request \<Rightarrow> nat \<Rightarrow> bool \<Rightarrow> response \<times> store" where
  "category_update st r i partial =
     (case get_object CategoryViewSet_permission_classes category_id (categories st) r i of
        Inl resp \<Rightarrow> (resp, st)
      | Inr obj \<Rightarrow>
          (case name_is_valid 100
                  (map category_name (filter (\<lambda>g. category_id g \<noteq> category_id obj) (categories st)))
                  partial (data r) of
             Inl errors \<Rightarrow> ((HTTP_400_BAD_REQUEST, Errors errors), st)
           | Inr v \<Rightarrow>
               (let obj' = obj\<lparr>category_name := (case v of None \<Rightarrow> category_name obj | Some x \<Rightarrow> x)\<rparr>
                in ((HTTP_200_OK, NameBody (category_id obj') (category_name obj')),
                    st\<lparr>categories :=
                         map (\<lambda>g. if category_id g = category_id obj then obj' else g)
                           (categories st)\<rparr>))))"

definition CategoryViewSet :: "store \<Rightarrow> name_data request \<Rightarrow> response \<times> store" where
  "CategoryViewSet st r =
     (if \<not> check_permissions CategoryViewSet_permission_classes r
      then ((HTTP_403_FORBIDDEN, Empty), st)
      else (case pk r of
              None \<Rightarrow>
                (case request_method r of
                   GET \<Rightarrow> ((HTTP_200_OK, NameList (map (\<lambda>g. (category_id g, category_name g)) (categories st))), st)
                 | HEAD \<Rightarrow> ((HTTP_200_OK, NameList (map (\<lambda>g. (category_id g, category_name g)) (categories st))), st)
                 | OPTIONS \<Rightarrow> ((HTTP_200_OK, Empty), st)
                 | POST \<Rightarrow> category_create st r
                 | PUT \<Rightarrow> ((HTTP_405_METHOD_NOT_ALLOWED, Empty), st)
                 | PATCH \<Rightarrow> ((HTTP_405_METHOD_NOT_ALLOWED, Empty), st)
                 | DELETE \<Rightarrow> ((HTTP_405_METHOD_NOT_ALLOWED, Empty), st))
            | Some i \<Rightarrow>
                (case request_method r of
                   OPTIONS \<Rightarrow> ((HTTP_200_OK, Empty), st)
                 | POST \<Rightarrow> ((HTTP_405_METHOD_NOT_ALLOWED, Empty), st)
                 | PUT \<Rightarrow> category_update st r i False
                 | PATCH \<Rightarrow> category_update st r i True
                 | DELETE \<Rightarrow>
                     (case get_object CategoryViewSet_permission_classes category_id (categories st) r i of
                        Inl resp \<Rightarrow> (resp, st)
                      | Inr obj \<Rightarrow> ((HTTP_204_NO_CONTENT, Empty), delete_category st obj))
                 | other \<Rightarrow>
                     (case get_object CategoryViewSet_permission_classes category_id (categories st) r i of
                        Inl resp \<Rightarrow> (resp, st)
                      | Inr obj \<Rightarrow> ((HTTP_200_OK, NameBody (category_id obj) (category_name obj)), st)))))"

definition tag_create :: "store \<Rightarrow> name_data request \<Rightarrow> response \<times> store" where
  "tag_create st r =
     (case name_is_valid 50 (map tag_name (tags st)) False (data r) of
        Inl errors \<Rightarrow> ((HTTP_400_BAD_REQUEST, Errors errors), st)
      | Inr v \<Rightarrow>
          (let new = \<lparr>tag_id = next_tag_id st, tag_name = (case v of None \<Rightarrow> [] | Some x \<Rightarrow> x)\<rparr>
           in ((HTTP_201_CREATED, NameBody (tag_id new) (tag_name new)),
               st\<lparr>tags := tags st @ [new], next_tag_id := Suc (next_tag_id st)\<rparr>)))"

definition tag_update :: "store \<Rightarrow> name_data request \<Rightarrow> nat \<Rightarrow> bool \<Rightarrow> response \<times> store" where
  "tag_update st r i partial =
     (case get_object TagViewSet_permission_classes tag_id (tags st) r i of
        Inl resp \<Rightarrow> (resp, st)
      | Inr obj \<Rightarrow>
          (case name_is_valid 50
                  (map tag_name (filter (\<lambda>t. tag_id t \<noteq> tag_id obj) (tags st))) partial (data r) of
             Inl errors \<Rightarrow> ((HTTP_400_BAD_REQUEST, Errors errors), st)
           | Inr v \<Rightarrow>
               (let obj' = obj\<lparr>tag_name := (case v of None \<Rightarrow> tag_name obj | Some x \<Rightarrow> x)\<rparr>
                in ((HTTP_200_OK, NameBody (tag_id obj') (tag_name obj')),
                    st\<lparr>tags := map (\<lambda>t. if tag_id t = tag_id obj then obj' else t) (tags st)\<rparr>))))"

definition TagViewSet :: "store \<Rightarrow> name_data request \<Rightarrow> response \<times> store" where
  "TagViewSet st r =
     (if \<not> check_permissions TagViewSet_permission_classes r
      then ((HTTP_403_FORBIDDEN, Empty), st)
      else (case pk r of
              None \<Rightarrow>
                (case request_method r of
                   GET \<Rightarrow> ((HTTP_200_OK, NameList (map (\<lambda>t. (tag_id t, tag_name t)) (tags st))), st)
                 | HEAD \<Rightarrow> ((HTTP_200_OK, NameList (map (\<lambda>t. (tag_id t, tag_name t)) (tags st))), st)
                 | OPTIONS \<Rightarrow> ((HTTP_200_OK, Empty), st)
                 | POST \<Rightarrow> tag_create st r
                 | PUT \<Rightarrow> ((HTTP_405_METHOD_NOT_ALLOWED, Empty), st)
                 | PATCH \<Rightarrow> ((HTTP_405_METHOD_NOT_ALLOWED, Empty), st)
                 | DELETE \<Rightarrow> ((HTTP_405_METHOD_NOT_ALLOWED, Empty), st))
            | Some i \<Rightarrow>
                (case request_method r of
                   OPTIONS \<Rightarrow> ((HTTP_200_OK, Empty), st)
                 | POST \<Rightarrow> ((HTTP_405_METHOD_NOT_ALLOWED, Empty), st)
                 | PUT \<Rightarrow> tag_update st r i False
                 | PATCH \<Rightarrow> tag_update st r i True
                 | DELETE \<Rightarrow>
                     (case get_object TagViewSet_permission_classes tag_id (tags st) r i of
                        Inl resp \<Rightarrow> (resp, st)
                      | Inr obj \<Rightarrow> ((HTTP_204_NO_CONTENT, Empty), delete_tag st obj))
                 | other \<Rightarrow>
                     (case get_object TagViewSet_permission_classes tag_id (tags st) r i of
                        Inl resp \<Rightarrow> (resp, st)
                      | Inr obj \<Rightarrow> ((HTTP_200_OK, NameBody (tag_id obj) (tag_name obj)), st)))))"

section \<open>Notions used in the statements\<close>


text \<open>
  \<open>has_path rep is\<close>: the ids \<open>is\<close> are found along one branch of \<open>rep\<close>, the first at
  \<open>rep\<close> itself, each next one among the replies of the one before.
\<close>

fun has_path :: "comment_repr \<Rightarrow> nat list \<Rightarrow> bool" where
  "has_path rep [] = True"
| "has_path rep [i] = (r_id rep = i)"
| "has_path rep (i # j # js) = (r_id rep = i \<and> list_ex (\<lambda>k. has_path k (j # js)) (r_replies rep))"

text \<open>A chain of comments of the store, each the parent of the next.\<close>

fun chain :: "store \<Rightarrow> Comment list \<Rightarrow> bool" where
  "chain st [] = True"
| "chain st [c] = True"
| "chain st (c # k # ks) =
     (k \<in> set (comments st) \<and> parent k = Some (comment_id c) \<and> chain st (k # ks))"

text \<open>The primary key of the comments is unique.\<close>

definition unique_pk :: "store \<Rightarrow> bool" where
  "unique_pk st = distinct (map comment_id (comments st))"

text \<open>
  The parent of every comment was created strictly before the comment: primary keys
  are handed out in increasing order, so the parent has the smaller one.
\<close>

definition parents_first :: "store \<Rightarrow> bool" where
  "parents_first st =
     list_all (\<lambda>k. case parent k of None \<Rightarrow> True | Some p \<Rightarrow> p < comment_id k) (comments st)"

text \<open>Enough nesting levels for the representation of \<open>c\<close> under \<open>parents_first\<close>.\<close>

definition depth_bound :: "store \<Rightarrow> Comment \<Rightarrow> nat" where
  "depth_bound st c = Suc (fold max (map comment_id (comments st)) 0 - comment_id c)"

text \<open>The relation of a comment id to the id of one of its replies.\<close>

definition reply_rel :: "store \<Rightarrow> (nat \<times> nat) set" where
  "reply_rel st = {(p, i). \<exists>k \<in> set (comments st). comment_id k = i \<and> parent k = Some p}"

text \<open>
  The rows of the comment table are in the order of their creation: the primary keys,
  handed out in increasing order, increase along the table.
\<close>

definition created_in_order :: "store \<Rightarrow> bool" where
  "created_in_order st = sorted_wrt (<) (map comment_id (comments st))"

text \<open>Every primary key in use is below the counter that hands out the next one.\<close>

definition ids_fresh :: "store \<Rightarrow> bool" where
  "ids_fresh st = list_all (\<lambda>k. comment_id k < next_comment_id st) (comments st)"


section \<open>An example store\<close>

text \<open>
  Two users, two posts and four comments: a thread of three levels on the first post
  (comment 1, its reply 2, and the reply 3 to that reply) and comment 4, which belongs
  to the second post and names comment 1 of the first post as its parent.
\<close>

definition example_comment1 :: Comment where
  "example_comment1 = \<lparr>comment_id = 1, post = 1, content = ''first'', author = 1,
     parent = None, created_at = 3, updated_at = 3\<rparr>"

definition example_comment2 :: Comment where
  "example_comment2 = \<lparr>comment_id = 2, post = 1, content = ''reply'', author = 2,
     parent = Some 1, created_at = 4, updated_at = 4\<rparr>"

definition example_comment3 :: Comment where
  "example_comment3 = \<lparr>comment_id = 3, post = 1, content = ''reply to reply'', author = 1,
     parent = Some 2, created_at = 5, updated_at = 5\<rparr>"

definition example_comment4 :: Comment where
  "example_comment4 = \<lparr>comment_id = 4, post = 2, content = ''elsewhere'', author = 2,
     parent = Some 1, created_at = 6, updated_at = 6\<rparr>"

definition example_post1 :: Post where
  "example_post1 = \<lparr>post_id = 1, title = ''Intro'', post_content = ''Hello'',
     post_category = Some 1, post_tag = [1], post_created_at = 1, post_updated_at = 1,
     post_author = 1\<rparr>"

definition example_post2 :: Post where
  "example_post2 = \<lparr>post_id = 2, title = ''Other'', post_content = ''World'',
     post_category = None, post_tag = [], post_created_at = 2, post_updated_at = 2,
     post_author = 2\<rparr>"

definition example_store :: store where
  "example_store =
     \<lparr>users = [\<lparr>user_id = 1, username = ''alice''\<rparr>, \<lparr>user_id = 2, username = ''bob''\<rparr>],
      categories = [\<lparr>category_id = 1, category_name = ''Tech''\<rparr>],
      tags = [\<lparr>tag_id = 1, tag_name = ''News''\<rparr>],
      posts = [example_post1, example_post2],
      comments = [example_comment1, example_comment2, example_comment3, example_comment4],
      next_category_id = 2, next_tag_id = 2, next_post_id = 3, next_comment_id = 5\<rparr>"

text \<open>
  Requests to the example store: the method, the caller and the primary key of the route
  vary, the body is one of the two below. Both bodies name \<open>bob\<close> as the author.
\<close>

definition example_request :: "http_method \<Rightarrow> nat option \<Rightarrow> nat option \<Rightarrow> 'd \<Rightarrow> 'd request" where
  "example_request m u i d =
     \<lparr>request_method = m, user = u, pk = i, post_id_param = None, page = None, now = 9, data = d\<rparr>"

definition example_comment_data :: comment_data where
  "example_comment_data =
     \<lparr>cd_post = Given ''Other'', cd_content = Given ''nice'', cd_parent = Given 1,
      cd_author = Given ''bob''\<rparr>"

definition example_post_data :: post_data where
  "example_post_data =
     \<lparr>pd_title = Given ''Third'', pd_content = Given ''Text'', pd_category = Given ''Tech'',
      pd_tag = Given [''News''], pd_author = Given ''bob''\<rparr>"

text \<open>
  The example store after \<open>bob\<close> has created a post with the title of the first post:
  \<open>Post.title\<close> is not declared unique, so the request is valid.
\<close>

definition duplicate_title_store :: store where
  "duplicate_title_store =
     snd (PostViewSet example_store
            (example_request POST (Some 2) None (example_post_data\<lparr>pd_title := Given ''Intro''\<rparr>)))"



section \<open>The recursive representation\<close>

lemma those_eq_Some: "those xs = Some ys \<longleftrightarrow> xs = map Some ys"
  by (induction xs arbitrary: ys) (auto split: option.splits)

lemma those_map_Some:
  "those (map f xs) = Some ys \<longleftrightarrow> list_all2 (\<lambda>x y. f x = Some y) xs ys"
  by (induction xs arbitrary: ys) (auto simp: list_all2_Cons1 split: option.splits)

lemma to_representation_Suc:
  "to_representation (Suc n) st c = Some rep \<longleftrightarrow>
     (\<exists>rs. list_all2 (\<lambda>k r. to_representation n st k = Some r) (replies st c) rs \<and>
       rep = CommentRepr (comment_id c) (post_title st (post c)) (content c)
               (username_of st (author c)) (parent c) (created_at c) (updated_at c) rs)"
  unfolding those_map_Some [symmetric] by (auto split: option.splits)



declare to_representation.simps(2) [simp del]

lemma r_id_to_representation:
  "to_representation n st c = Some rep \<Longrightarrow> r_id rep = comment_id c"
  by (cases n) (auto simp: to_representation_Suc)

lemma replies_of_to_representation:
  "to_representation n st c = Some rep \<Longrightarrow>
     list_all2 (\<lambda>k r. to_representation (n - 1) st k = Some r) (replies st c) (r_replies rep)"
  by (cases n) (auto simp: to_representation_Suc simp del: to_representation.simps(2))


lemma list_all2_left_ex: "list_all2 P xs ys \<Longrightarrow> x \<in> set xs \<Longrightarrow> \<exists>y \<in> set ys. P x y"
  by (induction rule: list_all2_induct) auto


lemma in_replies: "k \<in> set (replies st c) \<longleftrightarrow> k \<in> set (comments st) \<and> parent k = Some (comment_id c)"
  by (auto simp: replies_def)


















lemma fold_max_ge: "a \<le> fold max xs (a::nat)"
  by (induction xs arbitrary: a) (auto intro: order_trans [OF max.cobounded2])

lemma fold_max_member: "x \<in> set xs \<Longrightarrow> x \<le> fold max xs (a::nat)"
proof (induction xs arbitrary: a)
  case Nil
  then show ?case by simp
next
  case (Cons y ys)
  show ?case
  proof (cases "x = y")
    case True
    have "y \<le> max y a" by simp
    also have "\<dots> \<le> fold max ys (max y a)" by (rule fold_max_ge)
    finally show ?thesis using True by simp
  next
    case False
    with Cons show ?thesis by simp
  qed
qed

lemma list_all2_exists:
  "(\<And>x. x \<in> set xs \<Longrightarrow> \<exists>y. P x y) \<Longrightarrow> \<exists>ys. list_all2 P xs ys"
proof (induction xs)
  case Nil
  then show ?case by simp
next
  case (Cons x xs)
  then obtain y ys where "P x y" "list_all2 P xs ys" by (metis list.set_intros)
  then have "list_all2 P (x # xs) (y # ys)" by simp
  then show ?case by blast
qed

lemma reply_id_bounds:
  assumes "parents_first st" and "k \<in> set (replies st c)"
  shows "comment_id c < comment_id k"
    and "comment_id k \<le> fold max (map comment_id (comments st)) 0"
proof -
  from assms(2) have k: "k \<in> set (comments st)" "parent k = Some (comment_id c)"
    by (simp_all add: in_replies)
  from assms(1) k show "comment_id c < comment_id k"
    by (auto simp: parents_first_def list_all_iff)
  from k(1) show "comment_id k \<le> fold max (map comment_id (comments st)) 0"
    by (intro fold_max_member) simp
qed

lemma to_representation_returns:
  assumes "parents_first st"
  shows "depth_bound st c \<le> n \<Longrightarrow> \<exists>rep. to_representation n st c = Some rep"
proof (induction n arbitrary: c)
  case 0
  then show ?case by (simp add: depth_bound_def)
next
  case (Suc n)
  have "\<exists>r. to_representation n st k = Some r" if "k \<in> set (replies st c)" for k
  proof -
    from reply_id_bounds [OF assms that] Suc.prems have "depth_bound st k \<le> n"
      by (simp add: depth_bound_def)
    then show ?thesis by (rule Suc.IH)
  qed
  then obtain rs where "list_all2 (\<lambda>k r. to_representation n st k = Some r) (replies st c) rs"
    using list_all2_exists [of "replies st c" "\<lambda>k r. to_representation n st k = Some r"] by blast
  then show ?case
    unfolding to_representation_Suc by blast
qed

lemma to_representation_has_path:
  "to_representation n st c = Some rep \<Longrightarrow> chain st (c # ks) \<Longrightarrow>
     has_path rep (map comment_id (c # ks))"
proof (induction ks arbitrary: n c rep)
  case Nil
  then show ?case by (simp add: r_id_to_representation)
next
  case (Cons k ks)
  from Cons.prems(2) have k: "k \<in> set (replies st c)" and ch: "chain st (k # ks)"
    by (simp_all add: in_replies)
  from list_all2_left_ex [OF replies_of_to_representation [OF Cons.prems(1)] k] obtain r where
    r: "r \<in> set (r_replies rep)" "to_representation (n - 1) st k = Some r" by auto
  from Cons.IH [OF r(2) ch] have "has_path r (map comment_id (k # ks))" .
  with r(1) r_id_to_representation [OF Cons.prems(1)] show ?case
    by (auto simp: list_ex_iff)
qed



lemma patch_parent_self_valid:
  "CommentSerializer_is_valid example_store True
     \<lparr>cd_post = Missing, cd_content = Missing, cd_parent = Given 1, cd_author = Missing\<rparr>
   = Inr (Inr (None, None, Some (Some 1)))"
  by (simp add: CommentSerializer_is_valid_def slug_related_field_def char_field_def
      parent_field_def queryset_get_def example_store_def example_comment1_def
      example_comment2_def example_comment3_def example_comment4_def)

section \<open>The order of the comment table\<close>


lemma perform_create_appends:
  assumes "CommentViewSet_perform_create st r v = Inr (new, st')"
  shows "comments st' = comments st @ [new] \<and> comment_id new = next_comment_id st
    \<and> next_comment_id st' = Suc (next_comment_id st)"
  using assms
  by (auto simp: CommentViewSet_perform_create_def Let_def split: option.splits prod.splits)

lemma perform_create_in_order:
  assumes "CommentViewSet_perform_create st r v = Inr (new, st')"
    and "created_in_order st" and "ids_fresh st"
  shows "created_in_order st' \<and> ids_fresh st'"
proof -
  note a = perform_create_appends [OF assms(1)]
  from assms(3) have "\<forall>k \<in> set (comments st). comment_id k < next_comment_id st"
    by (simp add: ids_fresh_def list_all_iff)
  with a assms(2) show ?thesis
    by (auto simp: created_in_order_def ids_fresh_def list_all_iff sorted_wrt_append)
qed

section \<open>Permissions and safe methods\<close>
















lemma filter_key_unique:
  "distinct (map f xs) \<Longrightarrow> x \<in> set xs \<Longrightarrow> filter (\<lambda>y. f y = f x) xs = [x]"
proof (induction xs)
  case Nil
  then show ?case by simp
next
  case (Cons a xs)
  show ?case
  proof (cases "a = x")
    case True
    with Cons.prems(1) have "f x \<notin> f ` set xs" by simp
    then have "filter (\<lambda>y. f y = f x) xs = []"
      unfolding filter_empty_conv by (metis imageI)
    with True show ?thesis by simp
  next
    case False
    with Cons.prems have x: "x \<in> set xs" and "f a \<noteq> f x" by auto
    with Cons show ?thesis by simp
  qed
qed

lemma queryset_get_key:
  assumes "distinct (map f xs)" and "x \<in> set xs"
  shows "queryset_get (\<lambda>y. f y = f x) xs = Got x"
  by (simp add: queryset_get_def filter_key_unique [OF assms])





lemma post_queryset_get:
  assumes "distinct (map post_id (posts st))" and "p \<in> set (posts st)"
  shows "queryset_get (\<lambda>x. post_id x = post_id p) (PostViewSet_queryset st) = Got p"
proof -
  have "distinct (map post_id (PostViewSet_queryset st))"
    using assms(1) by (simp add: distinct_map PostViewSet_queryset_def)
  moreover have "p \<in> set (PostViewSet_queryset st)"
    using assms(2) by (simp add: PostViewSet_queryset_def)
  ultimately show ?thesis by (rule queryset_get_key)
qed


section \<open>Creation\<close>

lemma comment_is_valid_author:
  "CommentSerializer_is_valid st partial (d\<lparr>cd_author := a\<rparr>) = CommentSerializer_is_valid st partial d"
  by (simp add: CommentSerializer_is_valid_def)

lemma post_is_valid_author:
  "PostSerializer_is_valid st partial (d\<lparr>pd_author := a\<rparr>) = PostSerializer_is_valid st partial d"
  by (simp add: PostSerializer_is_valid_def)

lemma comment_perform_create_data:
  "CommentViewSet_perform_create st (r\<lparr>data := d\<rparr>) v = CommentViewSet_perform_create st r v"
  by (simp add: CommentViewSet_perform_create_def split: option.splits prod.splits)

lemma post_perform_create_data:
  "PostViewSet_perform_create st (r\<lparr>data := d\<rparr>) v = PostViewSet_perform_create st r v"
  by (simp add: PostViewSet_perform_create_def split: option.splits prod.splits)

lemma comment_get_object_data:
  "get_object CommentViewSet_permission_classes comment_id (get_queryset st (r\<lparr>data := d\<rparr>))
      (r\<lparr>data := d\<rparr>) i
   = get_object CommentViewSet_permission_classes comment_id (get_queryset st r) r i"
  by (simp add: get_object_def get_queryset_def check_object_permissions_def
      CommentViewSet_permission_classes_def IsAuthorOrReadOnly_def has_object_permission_def
      split: got.splits)

lemma post_get_object_data:
  "get_object PostViewSet_permission_classes post_id qs (r\<lparr>data := d\<rparr>) i
   = get_object PostViewSet_permission_classes post_id qs r i"
  by (simp add: get_object_def check_object_permissions_def
      PostViewSet_permission_classes_def IsAuthorOrReadOnly_def has_object_permission_def
      split: got.splits)

lemma comment_author_ignored:
  "CommentViewSet n st (r\<lparr>data := (data r)\<lparr>cd_author := a\<rparr>\<rparr>) = CommentViewSet n st r"
proof -
  let ?r = "r\<lparr>data := (data r)\<lparr>cd_author := a\<rparr>\<rparr>"
  have p: "check_permissions CommentViewSet_permission_classes ?r
      = check_permissions CommentViewSet_permission_classes r"
    by (simp add: check_permissions_def CommentViewSet_permission_classes_def
        IsAuthorOrReadOnly_def has_permission_def)
  have q: "get_queryset st ?r = get_queryset st r"
    by (simp add: get_queryset_def)
  have c: "comment_create n st ?r = comment_create n st r"
    by (simp add: comment_create_def comment_is_valid_author comment_perform_create_data
        split: sum.splits prod.splits)
  have l: "comment_list n st ?r = comment_list n st r"
    by (simp add: comment_list_def q split: option.splits)
  have g: "comment_retrieve n st ?r i = comment_retrieve n st r i" for i
    by (simp add: comment_retrieve_def comment_get_object_data)
  have u: "comment_update n st ?r i b = comment_update n st r i b" for i b
    by (simp add: comment_update_def comment_get_object_data comment_is_valid_author
        split: sum.splits prod.splits)
  have d: "comment_destroy st ?r i = comment_destroy st r i" for i
    by (simp add: comment_destroy_def comment_get_object_data)
  show ?thesis
    unfolding CommentViewSet_def p c l g u d by (simp split: option.splits)
qed

lemma post_author_ignored:
  "PostViewSet st (r\<lparr>data := (data r)\<lparr>pd_author := a\<rparr>\<rparr>) = PostViewSet st r"
proof -
  let ?r = "r\<lparr>data := (data r)\<lparr>pd_author := a\<rparr>\<rparr>"
  have p: "check_permissions PostViewSet_permission_classes ?r
      = check_permissions PostViewSet_permission_classes r"
    by (simp add: check_permissions_def PostViewSet_permission_classes_def
        IsAuthorOrReadOnly_def has_permission_def)
  have c: "post_create st ?r = post_create st r"
    by (simp add: post_create_def post_is_valid_author post_perform_create_data
        split: sum.splits prod.splits)
  have l: "post_list st ?r = post_list st r"
    by (simp add: post_list_def split: option.splits)
  have g: "post_retrieve st ?r i = post_retrieve st r i" for i
    by (simp add: post_retrieve_def post_get_object_data)
  have u: "post_update st ?r i b = post_update st r i b" for i b
    by (simp add: post_update_def post_get_object_data post_is_valid_author
        split: sum.splits prod.splits)
  have d: "post_destroy st ?r i = post_destroy st r i" for i
    by (simp add: post_destroy_def post_get_object_data)
  show ?thesis
    unfolding PostViewSet_def p c l g u d by (simp split: option.splits)
qed


lemma comment_post_allowed:
  "request_method r = POST \<Longrightarrow> user r = Some u \<Longrightarrow> pk r = None \<Longrightarrow>
     CommentViewSet n st r = comment_create n st r"
  by (simp add: CommentViewSet_def check_permissions_def CommentViewSet_permission_classes_def
      IsAuthorOrReadOnly_def has_permission_def)

lemma post_post_allowed:
  "request_method r = POST \<Longrightarrow> user r = Some u \<Longrightarrow> pk r = None \<Longrightarrow>
     PostViewSet st r = post_create st r"
  by (simp add: PostViewSet_def check_permissions_def PostViewSet_permission_classes_def
      IsAuthorOrReadOnly_def has_permission_def)

lemma comment_create_outcome:
  assumes "comment_create n st r = Some (resp, st')" and "user r = Some u"
  shows "(st' = st \<and> (fst resp = HTTP_400_BAD_REQUEST \<or> fst resp = HTTP_500_INTERNAL_SERVER_ERROR))
    \<or> (fst resp = HTTP_201_CREATED
        \<and> (\<exists>new. comments st' = comments st @ [new] \<and> author new = u))"
proof (cases "CommentSerializer_is_valid st False (data r)")
  case (Inl e)
  with assms(1) show ?thesis by (auto simp: comment_create_def)
next
  case (Inr x)
  show ?thesis
  proof (cases x)
    case (Inl errors)
    with Inr assms(1) show ?thesis by (auto simp: comment_create_def)
  next
    case v: (Inr v)
    show ?thesis
    proof (cases "CommentViewSet_perform_create st r v")
      case (Inl e)
      with Inr v assms(1) show ?thesis by (auto simp: comment_create_def)
    next
      case c: (Inr y)
      obtain new st2 where y: "y = (new, st2)" by (cases y)
      from c y assms(2) have "comments st2 = comments st @ [new]" "author new = u"
        by (auto simp: CommentViewSet_perform_create_def Let_def split: option.splits prod.splits)
      with Inr v c y assms(1) show ?thesis by (auto simp: comment_create_def)
    qed
  qed
qed

lemma post_create_outcome:
  assumes "user r = Some u"
  shows "(snd (post_create st r) = st
        \<and> (fst (fst (post_create st r)) = HTTP_400_BAD_REQUEST
            \<or> fst (fst (post_create st r)) = HTTP_500_INTERNAL_SERVER_ERROR))
    \<or> (fst (fst (post_create st r)) = HTTP_201_CREATED
        \<and> (\<exists>new. posts (snd (post_create st r)) = posts st @ [new] \<and> post_author new = u))"
proof (cases "PostSerializer_is_valid st False (data r)")
  case (Inl e)
  then show ?thesis by (simp add: post_create_def)
next
  case (Inr x)
  show ?thesis
  proof (cases x)
    case (Inl errors)
    with Inr show ?thesis by (simp add: post_create_def)
  next
    case v: (Inr v)
    obtain t c g ts where "v = (t, c, g, ts)" by (cases v)
    with Inr v assms show ?thesis
      by (simp add: post_create_def PostViewSet_perform_create_def Let_def)
  qed
qed

lemma post_create_valid:
  assumes "user r = Some u" and "PostSerializer_is_valid st False (data r) = Inr (Inr v)"
  shows "fst (fst (post_create st r)) = HTTP_201_CREATED"
proof -
  obtain t c g ts where "v = (t, c, g, ts)" by (cases v)
  with assms show ?thesis
    by (simp add: post_create_def PostViewSet_perform_create_def Let_def)
qed

lemma queryset_get_Got:
  assumes "queryset_get P qs = Got x"
  shows "x \<in> set qs \<and> P x"
proof -
  from assms have "filter P qs = [x]"
    by (auto simp: queryset_get_def split: list.splits)
  then have "x \<in> set (filter P qs)" by simp
  then show ?thesis by simp
qed

lemma slug_field_supplied:
  "raised (slug_related_field False slug qs v) = None \<Longrightarrow>
   failure name (slug_related_field False slug qs v) = [] \<Longrightarrow>
   \<exists>x \<in> set qs. slug_related_field False slug qs v = Valid x \<and> v = Given (slug x)"
  by (auto simp: slug_related_field_def dest: queryset_get_Got
      split: field_in.splits if_splits got.splits)

lemma char_field_supplied:
  "failure name (char_field False m v) = [] \<Longrightarrow> \<exists>x. char_field False m v = Valid x"
  by (auto simp: char_field_def split: field_in.splits if_splits option.splits)

lemma parent_field_supplied:
  "raised (parent_field qs v) = None \<Longrightarrow> failure name (parent_field qs v) = [] \<Longrightarrow>
   supplied (parent_field qs v) = None \<and> v = Missing
   \<or> supplied (parent_field qs v) = Some None \<and> v = Null
   \<or> (\<exists>k \<in> set qs. supplied (parent_field qs v) = Some (Some (comment_id k))
         \<and> v = Given (comment_id k))"
  by (auto simp: parent_field_def dest: queryset_get_Got
      split: field_in.splits if_splits got.splits)

lemma comment_is_valid_supplied:
  assumes "CommentSerializer_is_valid st False d = Inr (Inr (p, c, a))"
  shows "(\<exists>x \<in> set (posts st). p = Some x \<and> cd_post d = Given (title x))
    \<and> (\<exists>s. c = Some s)
    \<and> (a = None \<and> cd_parent d = Missing \<or> a = Some None \<and> cd_parent d = Null
        \<or> (\<exists>k \<in> set (comments st). a = Some (Some (comment_id k))
              \<and> cd_parent d = Given (comment_id k)))"
proof -
  let ?p = "slug_related_field False title (posts st) (cd_post d)"
  let ?c = "char_field False None (cd_content d)"
  let ?a = "parent_field (comments st) (cd_parent d)"
  from assms have rp: "raised ?p = None" and ra: "raised ?a = None"
    by (auto simp: CommentSerializer_is_valid_def Let_def split: option.splits if_splits)
  with assms have e: "failure ''post'' ?p = []" "failure ''content'' ?c = []"
      "failure ''parent'' ?a = []"
    and v: "p = supplied ?p" "c = supplied ?c" "a = supplied ?a"
    by (auto simp: CommentSerializer_is_valid_def Let_def split: if_splits)
  from slug_field_supplied [OF rp e(1)] char_field_supplied [OF e(2)]
    parent_field_supplied [OF ra e(3)] v
  show ?thesis by auto
qed


lemma new_comment_no_replies:
  assumes "parents_first st" and "ids_fresh st"
    and "comment_id new = next_comment_id st"
    and "parent new = None \<or> (\<exists>k \<in> set (comments st). parent new = Some (comment_id k))"
  shows "replies (st\<lparr>comments := comments st @ [new], next_comment_id := m\<rparr>) new = []"
proof -
  have old: "parent k \<noteq> Some (next_comment_id st)" if "k \<in> set (comments st)" for k
  proof
    assume "parent k = Some (next_comment_id st)"
    with assms(1) that have "next_comment_id st < comment_id k"
      by (auto simp: parents_first_def list_all_iff)
    moreover from assms(2) that have "comment_id k < next_comment_id st"
      by (simp add: ids_fresh_def list_all_iff)
    ultimately show False by simp
  qed
  have new: "parent new \<noteq> Some (next_comment_id st)"
  proof
    assume p: "parent new = Some (next_comment_id st)"
    with assms(4) obtain k where "k \<in> set (comments st)" "comment_id k = next_comment_id st"
      by auto
    with assms(2) show False by (auto simp: ids_fresh_def list_all_iff)
  qed
  from old new show ?thesis
    by (auto simp: replies_def assms(3) filter_empty_conv)
qed

lemma comment_create_returns:
  assumes "user r = Some u"
    and "CommentSerializer_is_valid st False (data r) = Inr (Inr v)"
    and "parents_first st" and "ids_fresh st" and "0 < n"
  shows "\<exists>rep st'. comment_create n st r = Some ((HTTP_201_CREATED, CommentBody rep), st')"
proof -
  obtain p c a where v: "v = (p, c, a)" by (cases v)
  from comment_is_valid_supplied [OF assms(2) [unfolded v]] obtain x where
    x: "p = Some x" and
    a: "a = None \<or> a = Some None \<or> (\<exists>k \<in> set (comments st). a = Some (Some (comment_id k)))"
    by blast
  define new where "new = \<lparr>comment_id = next_comment_id st, post = post_id x,
      content = (case c of None \<Rightarrow> [] | Some x \<Rightarrow> x), author = u,
      parent = (case a of None \<Rightarrow> None | Some x \<Rightarrow> x),
      created_at = now r, updated_at = now r\<rparr>"
  define st' where "st' = st\<lparr>comments := comments st @ [new],
      next_comment_id := Suc (next_comment_id st)\<rparr>"
  have pc: "CommentViewSet_perform_create st r v = Inr (new, st')"
    by (simp add: CommentViewSet_perform_create_def assms(1) v x new_def st'_def Let_def)
  have "parent new = None \<or> (\<exists>k \<in> set (comments st). parent new = Some (comment_id k))"
    using a by (auto simp: new_def)
  then have "replies st' new = []"
    unfolding st'_def
    by (intro new_comment_no_replies [OF assms(3,4)]) (simp_all add: new_def)
  moreover from assms(5) obtain m where "n = Suc m" by (cases n) auto
  ultimately obtain rep where "to_representation n st' new = Some rep"
    by (auto simp: to_representation_Suc)
  with pc assms(2) show ?thesis
    by (simp add: comment_create_def)
qed

lemma perform_create_row:
  assumes "user r = Some u"
  shows "CommentViewSet_perform_create st r (Some p, c, a) =
    Inr (\<lparr>comment_id = next_comment_id st, post = post_id p,
           content = (case c of None \<Rightarrow> [] | Some x \<Rightarrow> x), author = u,
           parent = (case a of None \<Rightarrow> None | Some x \<Rightarrow> x),
           created_at = now r, updated_at = now r\<rparr>,
         st\<lparr>comments := comments st @
               [\<lparr>comment_id = next_comment_id st, post = post_id p,
                 content = (case c of None \<Rightarrow> [] | Some x \<Rightarrow> x), author = u,
                 parent = (case a of None \<Rightarrow> None | Some x \<Rightarrow> x),
                 created_at = now r, updated_at = now r\<rparr>],
             next_comment_id := Suc (next_comment_id st)\<rparr>)"
  by (simp add: CommentViewSet_perform_create_def assms Let_def)

section \<open>Validation\<close>

lemma duplicate_title_store_eq:
  "duplicate_title_store = example_store
     \<lparr>posts := [example_post1, example_post2,
        \<lparr>post_id = 3, title = ''Intro'', post_content = ''Text'', post_category = Some 1,
         post_tag = [1], post_created_at = 9, post_updated_at = 9, post_author = 2\<rparr>],
      next_post_id := 4\<rparr>"
proof -
  let ?d = "example_post_data\<lparr>pd_title := Given ''Intro''\<rparr>"
  let ?q = "example_request POST (Some 2) None ?d"
  have v: "PostSerializer_is_valid example_store False ?d
      = Inr (Inr (Some ''Intro'', Some ''Text'',
          Some \<lparr>category_id = 1, category_name = ''Tech''\<rparr>,
          Some [\<lparr>tag_id = 1, tag_name = ''News''\<rparr>]))"
    by (simp add: PostSerializer_is_valid_def slug_related_field_def char_field_def
        many_slug_related_field_def queryset_get_def strip_def whitespace_def
        example_post_data_def example_store_def)
  have e: "PostViewSet example_store ?q = post_create example_store ?q"
    by (rule post_post_allowed) (simp_all add: example_request_def)
  have c: "snd (post_create example_store ?q) = example_store
     \<lparr>posts := posts example_store @
        [\<lparr>post_id = next_post_id example_store, title = ''Intro'', post_content = ''Text'',
          post_category = Some 1, post_tag = [1], post_created_at = 9, post_updated_at = 9,
          post_author = 2\<rparr>],
      next_post_id := Suc (next_post_id example_store)\<rparr>"
    by (simp add: post_create_def example_request_def v PostViewSet_perform_create_def Let_def)
  show ?thesis
    unfolding duplicate_title_store_def e c by (simp add: example_store_def)
qed

lemma filter_key_at_most_one:
  "distinct (map f xs) \<Longrightarrow> length (filter (\<lambda>x. f x = v) xs) \<le> 1"
proof (induction xs)
  case Nil
  then show ?case by simp
next
  case (Cons a xs)
  show ?case
  proof (cases "f a = v")
    case True
    with Cons.prems have "v \<notin> f ` set xs" by simp
    then have "filter (\<lambda>x. f x = v) xs = []"
      unfolding filter_empty_conv by (metis imageI)
    with True show ?thesis by simp
  next
    case False
    with Cons show ?thesis by simp
  qed
qed

lemma queryset_get_not_many:
  "length (filter P xs) \<le> 1 \<Longrightarrow> queryset_get P xs \<noteq> ManyMatch"
  by (auto simp: queryset_get_def split: list.splits)

lemma queryset_get_none:
  "(\<forall>x \<in> set xs. \<not> P x) \<Longrightarrow> queryset_get P xs = NoMatch"
  by (simp add: queryset_get_def filter_empty_conv [THEN iffD2])

lemma slug_field_not_raised:
  assumes "\<forall>t. v = Given t \<longrightarrow> length (filter (\<lambda>p. slug p = t) qs) \<le> 1"
  shows "raised (slug_related_field partial slug qs v) = None"
proof (cases v)
  case (Given t)
  with assms have "queryset_get (\<lambda>p. slug p = t) qs \<noteq> ManyMatch"
    by (intro queryset_get_not_many) simp
  with Given show ?thesis
    by (simp add: slug_related_field_def split: got.splits)
qed (simp_all add: slug_related_field_def)

lemma parent_field_not_raised:
  assumes "distinct (map comment_id qs)"
  shows "raised (parent_field qs v) = None"
proof (cases v)
  case (Given i)
  from assms have "queryset_get (\<lambda>c. comment_id c = i) qs \<noteq> ManyMatch"
    by (intro queryset_get_not_many filter_key_at_most_one)
  with Given show ?thesis
    by (simp add: parent_field_def split: got.splits)
qed (simp_all add: parent_field_def)

lemma slug_field_unknown:
  assumes "\<forall>x \<in> set qs. slug x \<noteq> t"
  shows "\<exists>e. slug_related_field False slug qs (Given t) = Fail e"
  using queryset_get_none [of qs "\<lambda>x. slug x = t"] assms
  by (simp add: slug_related_field_def)

lemma parent_field_unknown:
  assumes "\<forall>k \<in> set qs. comment_id k \<noteq> i"
  shows "parent_field qs (Given i) = Fail DoesNotExist"
  using queryset_get_none [of qs "\<lambda>c. comment_id c = i"] assms
  by (simp add: parent_field_def)

lemma char_field_blank:
  assumes "v = Missing \<or> (\<exists>s. v = Given s \<and> strip s = [])"
  shows "\<exists>e. char_field False m v = Fail e"
  using assms by (auto simp: char_field_def)

lemma failure_name: "failure name x \<noteq> [] \<Longrightarrow> name \<in> fst ` set (failure name x)"
  by (cases x) simp_all

lemma failure_Fail: "x = Fail e \<Longrightarrow> failure name x = [(name, e)]"
  by simp


lemma comment_create_invalid:
  assumes "raised (slug_related_field False title (posts st) (cd_post (data r))) = None"
    and "raised (parent_field (comments st) (cd_parent (data r))) = None"
    and "failure ''post'' (slug_related_field False title (posts st) (cd_post (data r)))
         @ failure ''content'' (char_field False None (cd_content (data r)))
         @ failure ''parent'' (parent_field (comments st) (cd_parent (data r))) = errors"
    and "errors \<noteq> []"
  shows "comment_create n st r = Some ((HTTP_400_BAD_REQUEST, Errors errors), st)"
  using assms by (simp add: comment_create_def CommentSerializer_is_valid_def Let_def)

section \<open>The deletion collector\<close>

declare collect.simps [simp del]

lemma related_objects_set: "set (related_objects st batch) = reply_rel st `` set batch"
  by (auto simp: related_objects_def reply_rel_def split: option.splits)

lemma new_objs_set: "set (new_objs seen objs) = set objs - set seen"
  by (auto simp: new_objs_def)

lemma rtrancl_exit:
  assumes "(x, y) \<in> R\<^sup>*" and "x \<in> S"
  shows "y \<in> S \<or> (\<exists>w \<in> R `` S - S. (w, y) \<in> R\<^sup>*)"
  using assms
proof (induction rule: rtrancl_induct)
  case base
  then show ?case by simp
next
  case (step y z)
  from step.IH [OF step.prems] show ?case
  proof
    assume "y \<in> S"
    with step.hyps(2) show ?thesis by (cases "z \<in> S") auto
  next
    assume "\<exists>w \<in> R `` S - S. (w, y) \<in> R\<^sup>*"
    then obtain w where "w \<in> R `` S - S" "(w, y) \<in> R\<^sup>*" by blast
    with step.hyps(2) have "(w, z) \<in> R\<^sup>*" by simp
    with \<open>w \<in> R `` S - S\<close> show ?thesis by blast
  qed
qed

lemma from_new:
  assumes "(x, y) \<in> R\<^sup>*" and "x \<in> N"
  shows "y \<in> N \<union> R\<^sup>* `` (R `` N)"
  using assms by (cases rule: converse_rtranclE) auto

lemma closure_step:
  assumes "R `` S \<subseteq> S \<union> Q"
  shows "S \<union> (Q - S) \<union> R\<^sup>* `` (R `` (Q - S)) = S \<union> R\<^sup>* `` Q"
proof (intro equalityI subsetI)
  fix y
  assume "y \<in> S \<union> (Q - S) \<union> R\<^sup>* `` (R `` (Q - S))"
  then consider "y \<in> S" | "y \<in> Q" | "y \<in> R\<^sup>* `` (R `` (Q - S))" by blast
  then show "y \<in> S \<union> R\<^sup>* `` Q"
  proof cases
    case 3
    then obtain n w where "n \<in> Q" "(n, w) \<in> R" "(w, y) \<in> R\<^sup>*" by blast
    then have "(n, y) \<in> R\<^sup>*" by (meson converse_rtrancl_into_rtrancl)
    with \<open>n \<in> Q\<close> show ?thesis by blast
  qed auto
next
  fix y
  assume "y \<in> S \<union> R\<^sup>* `` Q"
  then consider "y \<in> S" | x where "x \<in> Q" "(x, y) \<in> R\<^sup>*" by blast
  then show "y \<in> S \<union> (Q - S) \<union> R\<^sup>* `` (R `` (Q - S))"
  proof cases
    case 2
    show ?thesis
    proof (cases "x \<in> S")
      case True
      from rtrancl_exit [OF 2(2) True] show ?thesis
      proof
        assume "\<exists>w \<in> R `` S - S. (w, y) \<in> R\<^sup>*"
        then obtain w where w: "w \<in> R `` S" "w \<notin> S" "(w, y) \<in> R\<^sup>*" by blast
        with assms have "w \<in> Q - S" by blast
        from from_new [OF w(3) this] show ?thesis by blast
      qed simp
    next
      case False
      with 2(1) have "x \<in> Q - S" by simp
      from from_new [OF 2(2) this] show ?thesis by blast
    qed
  qed simp
qed

lemma collect_set:
  "reply_rel st `` set seen \<subseteq> set seen \<union> set objs \<Longrightarrow>
     set (collect st seen objs) = set seen \<union> (reply_rel st)\<^sup>* `` set objs"
proof (induction st seen objs rule: collect.induct)
  case (1 st seen objs)
  let ?R = "reply_rel st"
  let ?new = "new_objs seen objs"
  show ?case
  proof (cases "?new = []")
    case True
    then have sub: "set objs \<subseteq> set seen"
      using new_objs_set [of seen objs] by auto
    with "1.prems" have "?R `` set seen \<subseteq> set seen" by blast
    then have "?R\<^sup>* `` set seen = set seen" by (rule Image_closed_trancl)
    with sub have "?R\<^sup>* `` set objs \<subseteq> set seen" by blast
    moreover have "collect st seen objs = seen"
      using True by (subst collect.simps) simp
    ultimately show ?thesis by auto
  next
    case False
    have inv: "?R `` set (seen @ ?new) \<subseteq> set (seen @ ?new) \<union> set (related_objects st ?new)"
      using "1.prems" by (auto simp: new_objs_set related_objects_set)
    have "collect st seen objs = collect st (seen @ ?new) (related_objects st ?new)"
      using False by (subst collect.simps) simp
    also have "set \<dots> = set (seen @ ?new) \<union> ?R\<^sup>* `` set (related_objects st ?new)"
      using False inv by (rule "1.IH")
    also have "\<dots> = set seen \<union> (set objs - set seen) \<union> ?R\<^sup>* `` (?R `` (set objs - set seen))"
      by (simp add: new_objs_set related_objects_set)
    also have "\<dots> = set seen \<union> ?R\<^sup>* `` set objs"
      using "1.prems" by (rule closure_step)
    finally show ?thesis .
  qed
qed

lemma collect_reachable: "set (collect st [] objs) = (reply_rel st)\<^sup>* `` set objs"
  using collect_set [of st "[]" objs] by simp

lemma delete_comment_comments:
  "comments (delete_comment st c)
     = filter (\<lambda>k. (comment_id c, comment_id k) \<notin> (reply_rel st)\<^sup>*) (comments st)"
  by (simp add: delete_comment_def Let_def collect_reachable)

lemma delete_post_comments:
  "comments (delete_post st p)
     = filter (\<lambda>k. comment_id k \<notin> (reply_rel st)\<^sup>* ``
                 (comment_id ` {k \<in> set (comments st). post k = post_id p})) (comments st)"
  by (simp add: delete_post_def Let_def collect_reachable)

lemma chain_reachable:
  "chain st (c # ks) \<Longrightarrow> k \<in> set (c # ks) \<Longrightarrow> (comment_id c, comment_id k) \<in> (reply_rel st)\<^sup>*"
proof (induction ks arbitrary: c)
  case Nil
  then show ?case by simp
next
  case (Cons a ks)
  show ?case
  proof (cases "k = c")
    case True
    then show ?thesis by simp
  next
    case False
    with Cons.prems have k: "k \<in> set (a # ks)" by simp
    from Cons.prems(1) have a: "a \<in> set (comments st)" "parent a = Some (comment_id c)"
      "chain st (a # ks)" by simp_all
    from a(1,2) have "(comment_id c, comment_id a) \<in> reply_rel st"
      by (auto simp: reply_rel_def)
    with Cons.IH [OF a(3) k] show ?thesis
      by (meson converse_rtrancl_into_rtrancl)
  qed
qed


lemma comment_destroy_author:
  assumes "request_method r = DELETE" and "pk r = Some (comment_id c)"
    and "c \<in> set (get_queryset st r)" and "unique_pk st" and "user r = Some (author c)"
  shows "CommentViewSet n st r = Some ((HTTP_204_NO_CONTENT, Empty), delete_comment st c)"
proof -
  have d: "distinct (map comment_id (get_queryset st r))"
    using assms(4) by (auto simp: unique_pk_def get_queryset_def distinct_map_filter
        split: option.splits)
  have g: "queryset_get (\<lambda>x. comment_id x = comment_id c) (get_queryset st r) = Got c"
    using d assms(3) by (rule queryset_get_key)
  have o: "get_object CommentViewSet_permission_classes comment_id (get_queryset st r) r
      (comment_id c) = Inr c"
    using assms(5)
    by (simp add: get_object_def g check_object_permissions_def
        CommentViewSet_permission_classes_def IsAuthorOrReadOnly_def has_object_permission_def)
  have p: "check_permissions CommentViewSet_permission_classes r"
    using assms(5)
    by (simp add: check_permissions_def CommentViewSet_permission_classes_def
        IsAuthorOrReadOnly_def has_permission_def)
  show ?thesis
    by (simp add: CommentViewSet_def p assms(1,2) comment_destroy_def o)
qed

lemma post_destroy_author:
  assumes "request_method q = DELETE" and "pk q = Some (post_id p)"
    and "p \<in> set (posts st)" and "distinct (map post_id (posts st))"
    and "user q = Some (post_author p)"
  shows "PostViewSet st q = ((HTTP_204_NO_CONTENT, Empty), delete_post st p)"
proof -
  have o: "get_object PostViewSet_permission_classes post_id (PostViewSet_queryset st) q
      (post_id p) = Inr p"
    using assms(5)
    by (simp add: get_object_def post_queryset_get [OF assms(4,3)] check_object_permissions_def
        PostViewSet_permission_classes_def IsAuthorOrReadOnly_def has_object_permission_def)
  have c: "check_permissions PostViewSet_permission_classes q"
    using assms(5)
    by (simp add: check_permissions_def PostViewSet_permission_classes_def
        IsAuthorOrReadOnly_def has_permission_def)
  show ?thesis
    by (simp add: PostViewSet_def c assms(1,2) post_destroy_def o)
qed

section \<open>Listing\<close>







section \<open>Categories and tags\<close>

lemma default_permissions_allow:
  "check_permissions DEFAULT_PERMISSION_CLASSES r"
  "check_object_permissions DEFAULT_PERMISSION_CLASSES r obj"
  by (simp_all add: check_permissions_def check_object_permissions_def
      DEFAULT_PERMISSION_CLASSES_def AllowAny_def)

lemma default_get_object:
  "get_object DEFAULT_PERMISSION_CLASSES pk_of qs r i =
    (case queryset_get (\<lambda>x. pk_of x = i) qs of
        NoMatch \<Rightarrow> Inl (HTTP_404_NOT_FOUND, Empty)
      | ManyMatch \<Rightarrow> Inl (HTTP_500_INTERNAL_SERVER_ERROR, Exception MultipleObjectsReturned)
      | Got obj \<Rightarrow> Inr obj)"
  by (simp add: get_object_def default_permissions_allow split: got.splits)

lemma category_update_not_forbidden:
  "fst (fst (category_update st r i partial)) \<noteq> HTTP_403_FORBIDDEN"
  by (simp add: category_update_def CategoryViewSet_permission_classes_def default_get_object
      Let_def split: got.splits sum.splits)

lemma tag_update_not_forbidden:
  "fst (fst (tag_update st r i partial)) \<noteq> HTTP_403_FORBIDDEN"
  by (simp add: tag_update_def TagViewSet_permission_classes_def default_get_object
      Let_def split: got.splits sum.splits)

lemma category_not_forbidden: "fst (fst (CategoryViewSet st r)) \<noteq> HTTP_403_FORBIDDEN"
  by (simp add: CategoryViewSet_def CategoryViewSet_permission_classes_def
      default_permissions_allow default_get_object category_create_def Let_def
      category_update_not_forbidden
      split: option.splits http_method.splits got.splits sum.splits)

lemma tag_not_forbidden: "fst (fst (TagViewSet st r)) \<noteq> HTTP_403_FORBIDDEN"
  by (simp add: TagViewSet_def TagViewSet_permission_classes_def
      default_permissions_allow default_get_object tag_create_def Let_def
      tag_update_not_forbidden
      split: option.splits http_method.splits got.splits sum.splits)

lemma category_any_caller: "CategoryViewSet st (r\<lparr>user := u\<rparr>) = CategoryViewSet st r"
proof -
  let ?r = "r\<lparr>user := u\<rparr>"
  have c: "category_create st ?r = category_create st r"
    by (simp add: category_create_def)
  have g: "get_object CategoryViewSet_permission_classes category_id (categories st) ?r i
      = get_object CategoryViewSet_permission_classes category_id (categories st) r i" for i
    by (simp add: CategoryViewSet_permission_classes_def default_get_object)
  have p: "category_update st ?r i b = category_update st r i b" for i b
    by (simp add: category_update_def g split: sum.splits)
  show ?thesis
    unfolding CategoryViewSet_def c g p
    by (simp add: CategoryViewSet_permission_classes_def default_permissions_allow
        split: option.splits)
qed

lemma tag_any_caller: "TagViewSet st (r\<lparr>user := u\<rparr>) = TagViewSet st r"
proof -
  let ?r = "r\<lparr>user := u\<rparr>"
  have c: "tag_create st ?r = tag_create st r"
    by (simp add: tag_create_def)
  have g: "get_object TagViewSet_permission_classes tag_id (tags st) ?r i
      = get_object TagViewSet_permission_classes tag_id (tags st) r i" for i
    by (simp add: TagViewSet_permission_classes_def default_get_object)
  have p: "tag_update st ?r i b = tag_update st r i b" for i b
    by (simp add: tag_update_def g split: sum.splits)
  show ?thesis
    unfolding TagViewSet_def c g p
    by (simp add: TagViewSet_permission_classes_def default_permissions_allow
        split: option.splits)
qed


lemma category_name_valid:
  assumes "nd_name d = Given s" and "strip s \<noteq> []" and "length (strip s) \<le> 100"
    and "strip s \<notin> set others"
  shows "name_is_valid 100 others partial d = Inr (Some (strip s))"
  using assms by (simp add: name_is_valid_def char_field_def)

lemma category_create_ok:
  assumes "request_method r = POST" and "pk r = None"
    and "nd_name (data r) = Given s" and "strip s \<noteq> []" and "length (strip s) \<le> 100"
    and "strip s \<notin> set (map category_name (categories st))"
  shows "CategoryViewSet st r =
    ((HTTP_201_CREATED, NameBody (next_category_id st) (strip s)),
     st\<lparr>categories := categories st @ [\<lparr>category_id = next_category_id st, category_name = strip s\<rparr>],
        next_category_id := Suc (next_category_id st)\<rparr>)"
  by (simp add: CategoryViewSet_def CategoryViewSet_permission_classes_def default_permissions_allow assms(1,2)
      category_create_def category_name_valid [OF assms(3-6)])

lemma category_delete_ok:
  assumes "request_method r = DELETE" and "pk r = Some (category_id g)"
    and "g \<in> set (categories st)" and "distinct (map category_id (categories st))"
  shows "CategoryViewSet st r = ((HTTP_204_NO_CONTENT, Empty), delete_category st g)"
  by (simp add: CategoryViewSet_def CategoryViewSet_permission_classes_def default_permissions_allow assms(1,2)
      default_get_object queryset_get_key [OF assms(4,3)])

lemma category_update_ok:
  assumes "request_method r = PATCH" and "pk r = Some (category_id g)"
    and "g \<in> set (categories st)" and "distinct (map category_id (categories st))"
    and "nd_name (data r) = Given s" and "strip s \<noteq> []" and "length (strip s) \<le> 100"
    and "strip s \<notin> set (map category_name (filter (\<lambda>h. category_id h \<noteq> category_id g) (categories st)))"
  shows "CategoryViewSet st r =
    ((HTTP_200_OK, NameBody (category_id g) (strip s)),
     st\<lparr>categories := map (\<lambda>h. if category_id h = category_id g then g\<lparr>category_name := strip s\<rparr> else h)
                     (categories st)\<rparr>)"
  by (simp add: CategoryViewSet_def CategoryViewSet_permission_classes_def default_permissions_allow assms(1,2)
      category_update_def default_get_object queryset_get_key [OF assms(4,3)]
      category_name_valid [OF assms(5-8)])

lemma tag_name_valid:
  assumes "nd_name d = Given s" and "strip s \<noteq> []" and "length (strip s) \<le> 50"
    and "strip s \<notin> set others"
  shows "name_is_valid 50 others partial d = Inr (Some (strip s))"
  using assms by (simp add: name_is_valid_def char_field_def)

lemma tag_create_ok:
  assumes "request_method r = POST" and "pk r = None"
    and "nd_name (data r) = Given s" and "strip s \<noteq> []" and "length (strip s) \<le> 50"
    and "strip s \<notin> set (map tag_name (tags st))"
  shows "TagViewSet st r =
    ((HTTP_201_CREATED, NameBody (next_tag_id st) (strip s)),
     st\<lparr>tags := tags st @ [\<lparr>tag_id = next_tag_id st, tag_name = strip s\<rparr>],
        next_tag_id := Suc (next_tag_id st)\<rparr>)"
  by (simp add: TagViewSet_def TagViewSet_permission_classes_def default_permissions_allow assms(1,2)
      tag_create_def tag_name_valid [OF assms(3-6)])

lemma tag_delete_ok:
  assumes "request_method r = DELETE" and "pk r = Some (tag_id g)"
    and "g \<in> set (tags st)" and "distinct (map tag_id (tags st))"
  shows "TagViewSet st r = ((HTTP_204_NO_CONTENT, Empty), delete_tag st g)"
  by (simp add: TagViewSet_def TagViewSet_permission_classes_def default_permissions_allow assms(1,2)
      default_get_object queryset_get_key [OF assms(4,3)])

lemma tag_update_ok:
  assumes "request_method r = PATCH" and "pk r = Some (tag_id g)"
    and "g \<in> set (tags st)" and "distinct (map tag_id (tags st))"
    and "nd_name (data r) = Given s" and "strip s \<noteq> []" and "length (strip s) \<le> 50"
    and "strip s \<notin> set (map tag_name (filter (\<lambda>h. tag_id h \<noteq> tag_id g) (tags st)))"
  shows "TagViewSet st r =
    ((HTTP_200_OK, NameBody (tag_id g) (strip s)),
     st\<lparr>tags := map (\<lambda>h. if tag_id h = tag_id g then g\<lparr>tag_name := strip s\<rparr> else h)
                     (tags st)\<rparr>)"
  by (simp add: TagViewSet_def TagViewSet_permission_classes_def default_permissions_allow assms(1,2)
      tag_update_def default_get_object queryset_get_key [OF assms(4,3)]
      tag_name_valid [OF assms(5-8)])

section \<open>Claims\<close>

text \<open>
  Claim C2. In a store where the parent of every comment was created strictly before
  the comment, the recursive representation of any comment \<open>c\<close> returns once
  \<open>depth_bound st c\<close> nested levels are allowed, and the node it returns holds every
  chain of replies below \<open>c\<close> at its full length: the ids of the chain lie along one
  branch, one level deeper at each step. The chain is of any length; the model puts no
  bound on the depth, as the source puts none. The stack limit of the interpreter lies
  outside the sources and is not modelled: the statement is about the recursion of the
  serializer.
\<close>

theorem acyclic_terminates:
  assumes "parents_first st" and "chain st (c # ks)" and "depth_bound st c \<le> n"
  shows "\<exists>rep. to_representation n st c = Some rep \<and> has_path rep (map comment_id (c # ks))"
proof -
  from to_representation_returns [OF assms(1,3)] obtain rep where
    rep: "to_representation n st c = Some rep" by blast
  from to_representation_has_path [OF rep assms(2)] rep show ?thesis by blast
qed

theorem acyclic_terminates_witness:
  "parents_first example_store
   \<and> chain example_store [example_comment1, example_comment2, example_comment3]
   \<and> depth_bound example_store example_comment1 \<le> 4
   \<and> (\<exists>rep. to_representation 4 example_store example_comment1 = Some rep
         \<and> has_path rep [1, 2, 3])"
proof -
  have h1: "parents_first example_store"
    by (simp add: parents_first_def example_store_def example_comment1_def example_comment2_def
        example_comment3_def example_comment4_def)
  have h2: "chain example_store [example_comment1, example_comment2, example_comment3]"
    by (simp add: example_store_def example_comment1_def example_comment2_def
        example_comment3_def example_comment4_def)
  have h3: "depth_bound example_store example_comment1 \<le> 4"
    by (simp add: depth_bound_def example_store_def example_comment1_def example_comment2_def
        example_comment3_def example_comment4_def)
  have ids: "map comment_id [example_comment1, example_comment2, example_comment3] = [1, 2, 3]"
    by (simp add: example_comment1_def example_comment2_def example_comment3_def)
  from acyclic_terminates [OF h1 h2 h3] h1 h2 h3 show ?thesis
    unfolding ids by simp
qed









text \<open>
  Claim C3. The member \<open>author\<close> of the request body has no effect on the answer or on the
  store, for comments and for posts alike. A create request (POST on the list route) of an
  authenticated caller either leaves the store unchanged (answered 400 or 500) or is answered
  201 and appends exactly one row, whose stored author is the caller. With a valid body the
  request is answered 201: for a post always, for a comment once one nested level is allowed
  in a store where parents were created first and the primary keys in use lie below the
  counter.
\<close>

theorem author_is_caller:
  fixes r :: "comment_data request" and q :: "post_data request"
  shows
    "CommentViewSet n st (r\<lparr>data := (data r)\<lparr>cd_author := a\<rparr>\<rparr>) = CommentViewSet n st r
   \<and> PostViewSet st (q\<lparr>data := (data q)\<lparr>pd_author := a\<rparr>\<rparr>) = PostViewSet st q
   \<and> (request_method r = POST \<and> pk r = None \<and> user r = Some u \<longrightarrow>
        (\<forall>resp st'. CommentViewSet n st r = Some (resp, st') \<longrightarrow>
            st' = st \<and> (fst resp = HTTP_400_BAD_REQUEST \<or> fst resp = HTTP_500_INTERNAL_SERVER_ERROR)
          \<or> fst resp = HTTP_201_CREATED
            \<and> (\<exists>new. comments st' = comments st @ [new] \<and> author new = u))
      \<and> (\<forall>v. CommentSerializer_is_valid st False (data r) = Inr (Inr v)
              \<and> parents_first st \<and> ids_fresh st \<and> 0 < n \<longrightarrow>
            (\<exists>rep st'. CommentViewSet n st r = Some ((HTTP_201_CREATED, CommentBody rep), st'))))
   \<and> (request_method q = POST \<and> pk q = None \<and> user q = Some u \<longrightarrow>
        (snd (PostViewSet st q) = st
          \<and> (fst (fst (PostViewSet st q)) = HTTP_400_BAD_REQUEST
              \<or> fst (fst (PostViewSet st q)) = HTTP_500_INTERNAL_SERVER_ERROR)
        \<or> fst (fst (PostViewSet st q)) = HTTP_201_CREATED
          \<and> (\<exists>new. posts (snd (PostViewSet st q)) = posts st @ [new] \<and> post_author new = u))
      \<and> (\<forall>v. PostSerializer_is_valid st False (data q) = Inr (Inr v) \<longrightarrow>
            fst (fst (PostViewSet st q)) = HTTP_201_CREATED))"
proof (intro conjI impI allI)
  show "CommentViewSet n st (r\<lparr>data := (data r)\<lparr>cd_author := a\<rparr>\<rparr>) = CommentViewSet n st r"
    by (rule comment_author_ignored)
  show "PostViewSet st (q\<lparr>data := (data q)\<lparr>pd_author := a\<rparr>\<rparr>) = PostViewSet st q"
    by (rule post_author_ignored)
next
  fix resp st'
  assume h: "request_method r = POST \<and> pk r = None \<and> user r = Some u"
    and c: "CommentViewSet n st r = Some (resp, st')"
  from h have "CommentViewSet n st r = comment_create n st r"
    by (intro comment_post_allowed) simp_all
  with c have "comment_create n st r = Some (resp, st')" by simp
  from comment_create_outcome [OF this] h
  show "st' = st \<and> (fst resp = HTTP_400_BAD_REQUEST \<or> fst resp = HTTP_500_INTERNAL_SERVER_ERROR)
          \<or> fst resp = HTTP_201_CREATED
            \<and> (\<exists>new. comments st' = comments st @ [new] \<and> author new = u)"
    by blast
next
  fix v
  assume h: "request_method r = POST \<and> pk r = None \<and> user r = Some u"
    and v: "CommentSerializer_is_valid st False (data r) = Inr (Inr v)
              \<and> parents_first st \<and> ids_fresh st \<and> 0 < n"
  from h have "CommentViewSet n st r = comment_create n st r"
    by (intro comment_post_allowed) simp_all
  moreover from h v have
    "\<exists>rep st'. comment_create n st r = Some ((HTTP_201_CREATED, CommentBody rep), st')"
    by (intro comment_create_returns [of r u st v]) simp_all
  ultimately show "\<exists>rep st'. CommentViewSet n st r = Some ((HTTP_201_CREATED, CommentBody rep), st')"
    by simp
next
  assume h: "request_method q = POST \<and> pk q = None \<and> user q = Some u"
  then have e: "PostViewSet st q = post_create st q"
    by (intro post_post_allowed) simp_all
  from h have u: "user q = Some u" by simp
  from post_create_outcome [OF u, of st]
  show "snd (PostViewSet st q) = st
          \<and> (fst (fst (PostViewSet st q)) = HTTP_400_BAD_REQUEST
              \<or> fst (fst (PostViewSet st q)) = HTTP_500_INTERNAL_SERVER_ERROR)
        \<or> fst (fst (PostViewSet st q)) = HTTP_201_CREATED
          \<and> (\<exists>new. posts (snd (PostViewSet st q)) = posts st @ [new] \<and> post_author new = u)"
    unfolding e .
  show "fst (fst (PostViewSet st q)) = HTTP_201_CREATED"
    if "PostSerializer_is_valid st False (data q) = Inr (Inr v)" for v
    unfolding e using u that by (rule post_create_valid)
qed


theorem author_is_caller_witness:
  "(\<exists>rep st' new.
      CommentViewSet 5 example_store (example_request POST (Some 1) None example_comment_data)
        = Some ((HTTP_201_CREATED, CommentBody rep), st')
      \<and> comments st' = comments example_store @ [new] \<and> author new = 1)
   \<and> (\<exists>new. fst (fst (PostViewSet example_store
                          (example_request POST (Some 1) None example_post_data)))
               = HTTP_201_CREATED
          \<and> posts (snd (PostViewSet example_store
                          (example_request POST (Some 1) None example_post_data)))
               = posts example_store @ [new]
          \<and> post_author new = 1)"
proof -
  let ?r = "example_request POST (Some 1) None example_comment_data"
  let ?q = "example_request POST (Some 1) None example_post_data"
  have pf: "parents_first example_store"
    by (simp add: parents_first_def example_store_def example_comment1_def example_comment2_def
        example_comment3_def example_comment4_def)
  have fr: "ids_fresh example_store"
    by (simp add: ids_fresh_def example_store_def example_comment1_def example_comment2_def
        example_comment3_def example_comment4_def)
  have cv: "CommentSerializer_is_valid example_store False (data ?r)
      = Inr (Inr (Some example_post2, Some ''nice'', Some (Some 1)))"
    by (simp add: CommentSerializer_is_valid_def slug_related_field_def char_field_def
        parent_field_def queryset_get_def strip_def whitespace_def example_request_def
        example_comment_data_def example_store_def example_post1_def example_post2_def
        example_comment1_def example_comment2_def example_comment3_def example_comment4_def)
  have pv: "PostSerializer_is_valid example_store False (data ?q)
      = Inr (Inr (Some ''Third'', Some ''Text'',
          Some \<lparr>category_id = 1, category_name = ''Tech''\<rparr>,
          Some [\<lparr>tag_id = 1, tag_name = ''News''\<rparr>]))"
    by (simp add: PostSerializer_is_valid_def slug_related_field_def char_field_def
        many_slug_related_field_def queryset_get_def strip_def whitespace_def
        example_request_def example_post_data_def example_store_def)
  have m: "request_method ?r = POST \<and> pk ?r = None \<and> user ?r = Some 1"
    "request_method ?q = POST \<and> pk ?q = None \<and> user ?q = Some 1"
    by (simp_all add: example_request_def)
  have n5: "0 < (5::nat)" by simp
  note t = author_is_caller [where r = ?r and q = ?q and n = 5 and st = example_store and u = 1]
  note tc = t [THEN conjunct2, THEN conjunct2, THEN conjunct1, THEN mp, OF m(1)]
  note tp = t [THEN conjunct2, THEN conjunct2, THEN conjunct2, THEN mp, OF m(2)]
  from tc [THEN conjunct2] cv pf fr n5 obtain rep st' where
    c: "CommentViewSet 5 example_store ?r = Some ((HTTP_201_CREATED, CommentBody rep), st')"
    by blast
  from tc [THEN conjunct1, THEN spec, THEN spec, THEN mp, OF c]
  obtain new where "comments st' = comments example_store @ [new]" "author new = 1"
    by auto
  with c have a: "\<exists>rep st' new. CommentViewSet 5 example_store ?r
        = Some ((HTTP_201_CREATED, CommentBody rep), st')
      \<and> comments st' = comments example_store @ [new] \<and> author new = 1"
    by blast
  from tp [THEN conjunct2] pv have s: "fst (fst (PostViewSet example_store ?q)) = HTTP_201_CREATED"
    by blast
  from tp [THEN conjunct1] s obtain new where
    "posts (snd (PostViewSet example_store ?q)) = posts example_store @ [new]" "post_author new = 1"
    by auto
  with s have b: "\<exists>new. fst (fst (PostViewSet example_store ?q)) = HTTP_201_CREATED
      \<and> posts (snd (PostViewSet example_store ?q)) = posts example_store @ [new]
      \<and> post_author new = 1"
    by blast
  from a b show ?thesis by (rule conjI)
qed

text \<open>
  Claim C6. A comment may be created under a parent that belongs to another post. An
  authenticated create request whose \<open>post\<close> is the title of exactly one post, whose content
  is not blank and whose \<open>parent\<close> is the id of a stored comment of a different post passes
  validation with no error and is answered 201; the new row has the resolved post and the
  given parent, which belongs to another post. No check relates the two fields.
\<close>

theorem parent_of_other_post_accepted:
  assumes "request_method r = POST" and "pk r = None" and "user r = Some u"
    and "cd_post (data r) = Given (title p)" and "cd_content (data r) = Given s"
    and "cd_parent (data r) = Given (comment_id k)"
    and "filter (\<lambda>x. title x = title p) (posts st) = [p]" and "title p \<noteq> []"
    and "strip s \<noteq> []"
    and "k \<in> set (comments st)" and "unique_pk st" and "post k \<noteq> post_id p"
    and "parents_first st" and "ids_fresh st" and "0 < n"
  shows "CommentSerializer_is_valid st False (data r)
      = Inr (Inr (Some p, Some (strip s), Some (Some (comment_id k))))
    \<and> (\<exists>rep st' new. CommentViewSet n st r = Some ((HTTP_201_CREATED, CommentBody rep), st')
          \<and> comments st' = comments st @ [new]
          \<and> post new = post_id p \<and> parent new = Some (comment_id k)
          \<and> post k \<noteq> post new)"
proof -
  have g: "queryset_get (\<lambda>c. comment_id c = comment_id k) (comments st) = Got k"
    using assms(11) [unfolded unique_pk_def] assms(10) by (rule queryset_get_key)
  have v: "CommentSerializer_is_valid st False (data r)
      = Inr (Inr (Some p, Some (strip s), Some (Some (comment_id k))))"
  proof -
    have fp: "slug_related_field False title (posts st) (cd_post (data r)) = Valid p"
      by (simp add: slug_related_field_def queryset_get_def assms(4,7,8))
    have fc: "char_field False None (cd_content (data r)) = Valid (strip s)"
      by (simp add: char_field_def assms(5,9))
    have fa: "parent_field (comments st) (cd_parent (data r)) = Valid (Some (comment_id k))"
      by (simp add: parent_field_def assms(6) g)
    show ?thesis
      by (simp add: CommentSerializer_is_valid_def fp fc fa)
  qed
  define new where "new = \<lparr>comment_id = next_comment_id st, post = post_id p,
      content = strip s, author = u, parent = Some (comment_id k),
      created_at = now r, updated_at = now r\<rparr>"
  define st' where "st' = st\<lparr>comments := comments st @ [new],
      next_comment_id := Suc (next_comment_id st)\<rparr>"
  have pc: "CommentViewSet_perform_create st r (Some p, Some (strip s), Some (Some (comment_id k)))
      = Inr (new, st')"
    by (simp add: perform_create_row [OF assms(3)] new_def st'_def)
  have "replies st' new = []"
    unfolding st'_def
    by (rule new_comment_no_replies [OF assms(13,14)]) (use assms(10) in \<open>auto simp: new_def\<close>)
  moreover from assms(15) obtain m where "n = Suc m" by (cases n) auto
  ultimately obtain rep where "to_representation n st' new = Some rep"
    by (auto simp: to_representation_Suc)
  with pc v have "comment_create n st r = Some ((HTTP_201_CREATED, CommentBody rep), st')"
    by (simp add: comment_create_def)
  with comment_post_allowed [OF assms(1,3,2)]
  have "CommentViewSet n st r = Some ((HTTP_201_CREATED, CommentBody rep), st')" by simp
  moreover have "comments st' = comments st @ [new]" "post new = post_id p"
    "parent new = Some (comment_id k)" "post k \<noteq> post new"
    using assms(12) by (simp_all add: st'_def new_def)
  ultimately show ?thesis using v by blast
qed

theorem parent_of_other_post_accepted_witness:
  "post example_comment1 \<noteq> post_id example_post2
   \<and> (\<exists>rep st' new.
        CommentViewSet 5 example_store (example_request POST (Some 1) None example_comment_data)
          = Some ((HTTP_201_CREATED, CommentBody rep), st')
        \<and> comments st' = comments example_store @ [new]
        \<and> post new = 2 \<and> parent new = Some 1)"
proof -
  let ?r = "example_request POST (Some 1) None example_comment_data"
  have pf: "parents_first example_store"
    by (simp add: parents_first_def example_store_def example_comment1_def example_comment2_def
        example_comment3_def example_comment4_def)
  have fr: "ids_fresh example_store"
    by (simp add: ids_fresh_def example_store_def example_comment1_def example_comment2_def
        example_comment3_def example_comment4_def)
  have up: "unique_pk example_store"
    by (simp add: unique_pk_def example_store_def example_comment1_def example_comment2_def
        example_comment3_def example_comment4_def)
  have r: "request_method ?r = POST" "pk ?r = None" "user ?r = Some 1"
    "cd_post (data ?r) = Given (title example_post2)" "cd_content (data ?r) = Given ''nice''"
    "cd_parent (data ?r) = Given (comment_id example_comment1)"
    by (simp_all add: example_request_def example_comment_data_def example_post2_def
        example_comment1_def)
  have s: "filter (\<lambda>x. title x = title example_post2) (posts example_store) = [example_post2]"
    "title example_post2 \<noteq> []" "strip ''nice'' \<noteq> []"
    "example_comment1 \<in> set (comments example_store)"
    "post example_comment1 \<noteq> post_id example_post2"
    by (simp_all add: example_store_def example_post1_def example_post2_def example_comment1_def
        strip_def whitespace_def)
  have n5: "0 < (5::nat)" by simp
  from parent_of_other_post_accepted [OF r s(1-4) up s(5) pf fr n5]
  obtain rep st' new where
    "CommentViewSet 5 example_store ?r = Some ((HTTP_201_CREATED, CommentBody rep), st')"
    "comments st' = comments example_store @ [new]"
    "post new = post_id example_post2" "parent new = Some (comment_id example_comment1)"
    by blast
  then have "\<exists>rep st' new.
        CommentViewSet 5 example_store ?r = Some ((HTTP_201_CREATED, CommentBody rep), st')
        \<and> comments st' = comments example_store @ [new]
        \<and> post new = 2 \<and> parent new = Some 1"
    by (auto simp: example_post2_def example_comment1_def)
  with s(5) show ?thesis by (rule conjI)
qed

text \<open>
  Claim C7 (as amended). A create request of an authenticated caller, in a store where at
  most one post carries the supplied title, is answered 400 with field-level errors and leaves
  the store unchanged whenever the supplied title matches no post, or the supplied parent id
  matches no comment, or the content is missing or blank; the errors name the field
  concerned. The counterexample is a store in which two posts carry the title \<open>Intro\<close>
  (\<open>Post.title\<close> is not unique, unlike \<open>Category.name\<close> and \<open>Tag.name\<close>): a create request
  with that title and an empty content is answered 500, because the lookup by title raises
  \<open>MultipleObjectsReturned\<close>, which the field does not turn into a validation error.
\<close>

theorem create_validation_error:
  assumes "request_method r = POST" and "pk r = None" and "user r = Some u"
    and "unique_pk st"
    and "\<forall>t. cd_post (data r) = Given t \<longrightarrow> length (filter (\<lambda>p. title p = t) (posts st)) \<le> 1"
    and "(\<exists>t. cd_post (data r) = Given t \<and> (\<forall>p \<in> set (posts st). title p \<noteq> t))
       \<or> (\<exists>i. cd_parent (data r) = Given i \<and> (\<forall>k \<in> set (comments st). comment_id k \<noteq> i))
       \<or> cd_content (data r) = Missing
       \<or> (\<exists>s. cd_content (data r) = Given s \<and> strip s = [])"
  shows "\<exists>errors. CommentViewSet n st r = Some ((HTTP_400_BAD_REQUEST, Errors errors), st)
    \<and> errors \<noteq> []
    \<and> ((\<exists>t. cd_post (data r) = Given t \<and> (\<forall>p \<in> set (posts st). title p \<noteq> t))
          \<longrightarrow> ''post'' \<in> fst ` set errors)
    \<and> ((\<exists>i. cd_parent (data r) = Given i \<and> (\<forall>k \<in> set (comments st). comment_id k \<noteq> i))
          \<longrightarrow> (''parent'', DoesNotExist) \<in> set errors)
    \<and> (cd_content (data r) = Missing \<or> (\<exists>s. cd_content (data r) = Given s \<and> strip s = [])
          \<longrightarrow> ''content'' \<in> fst ` set errors)"
proof -
  let ?p = "slug_related_field False title (posts st) (cd_post (data r))"
  let ?c = "char_field False None (cd_content (data r))"
  let ?a = "parent_field (comments st) (cd_parent (data r))"
  let ?errors = "failure ''post'' ?p @ failure ''content'' ?c @ failure ''parent'' ?a"
  have rp: "raised ?p = None"
    using assms(5) by (rule slug_field_not_raised)
  have ra: "raised ?a = None"
    using assms(4) [unfolded unique_pk_def] by (rule parent_field_not_raised)
  have ep: "''post'' \<in> fst ` set ?errors"
    if "\<exists>t. cd_post (data r) = Given t \<and> (\<forall>p \<in> set (posts st). title p \<noteq> t)"
  proof -
    from that obtain t where t: "cd_post (data r) = Given t" "\<forall>p \<in> set (posts st). title p \<noteq> t"
      by blast
    from slug_field_unknown [OF t(2)] obtain e where
      "slug_related_field False title (posts st) (Given t) = Fail e" ..
    with t(1) show ?thesis by simp
  qed
  have ea: "(''parent'', DoesNotExist) \<in> set ?errors"
    if "\<exists>i. cd_parent (data r) = Given i \<and> (\<forall>k \<in> set (comments st). comment_id k \<noteq> i)"
  proof -
    from that obtain i where i: "cd_parent (data r) = Given i"
      "\<forall>k \<in> set (comments st). comment_id k \<noteq> i" by blast
    from parent_field_unknown [OF i(2)] i(1) show ?thesis by simp
  qed
  have ec: "''content'' \<in> fst ` set ?errors"
    if "cd_content (data r) = Missing \<or> (\<exists>s. cd_content (data r) = Given s \<and> strip s = [])"
  proof -
    from char_field_blank [OF that] obtain e where "?c = Fail e" by blast
    then show ?thesis by simp
  qed
  from assms(6) ep ea ec have ne: "?errors \<noteq> []"
    by (metis empty_iff empty_set image_is_empty)
  have "comment_create n st r = Some ((HTTP_400_BAD_REQUEST, Errors ?errors), st)"
    using rp ra refl ne by (rule comment_create_invalid)
  with comment_post_allowed [OF assms(1,3,2)]
  have "CommentViewSet n st r = Some ((HTTP_400_BAD_REQUEST, Errors ?errors), st)" by simp
  with ne ep ea ec show ?thesis by blast
qed

theorem create_validation_error_counterexample:
  "CommentViewSet 5 duplicate_title_store
     (example_request POST (Some 1) None
        (example_comment_data\<lparr>cd_post := Given ''Intro'', cd_content := Given []\<rparr>))
   = Some ((HTTP_500_INTERNAL_SERVER_ERROR, Exception MultipleObjectsReturned),
           duplicate_title_store)"
proof -
  let ?r = "example_request POST (Some 1) None
        (example_comment_data\<lparr>cd_post := Given ''Intro'', cd_content := Given []\<rparr>)"
  have "slug_related_field False title (posts duplicate_title_store) (Given ''Intro'')
      = Raise MultipleObjectsReturned"
    by (simp add: duplicate_title_store_eq slug_related_field_def queryset_get_def
        example_post1_def example_post2_def)
  then have "CommentSerializer_is_valid duplicate_title_store False (data ?r)
      = Inl MultipleObjectsReturned"
    by (simp add: CommentSerializer_is_valid_def example_request_def example_comment_data_def
        Let_def)
  then have "comment_create 5 duplicate_title_store ?r
      = Some ((HTTP_500_INTERNAL_SERVER_ERROR, Exception MultipleObjectsReturned),
           duplicate_title_store)"
    by (simp add: comment_create_def)
  moreover have "CommentViewSet 5 duplicate_title_store ?r = comment_create 5 duplicate_title_store ?r"
    by (rule comment_post_allowed) (simp_all add: example_request_def)
  ultimately show ?thesis by simp
qed

theorem create_validation_error_witness:
  "CommentViewSet 5 example_store
     (example_request POST (Some 1) None
        \<lparr>cd_post = Given ''Nowhere'', cd_content = Given [], cd_parent = Given 7,
         cd_author = Missing\<rparr>)
   = Some ((HTTP_400_BAD_REQUEST,
            Errors [(''post'', DoesNotExist), (''content'', Blank), (''parent'', DoesNotExist)]),
           example_store)"
proof -
  let ?d = "\<lparr>cd_post = Given ''Nowhere'', cd_content = Given [], cd_parent = Given 7,
         cd_author = Missing\<rparr>"
  let ?r = "example_request POST (Some 1) None ?d"
  have r: "request_method ?r = POST" "pk ?r = None" "user ?r = Some 1"
    by (simp_all add: example_request_def)
  have up: "unique_pk example_store"
    by (simp add: unique_pk_def example_store_def example_comment1_def example_comment2_def
        example_comment3_def example_comment4_def)
  have t: "\<forall>t. cd_post (data ?r) = Given t \<longrightarrow>
      length (filter (\<lambda>p. title p = t) (posts example_store)) \<le> 1"
    by (simp add: example_request_def example_store_def example_post1_def example_post2_def)
  have c: "(\<exists>t. cd_post (data ?r) = Given t \<and> (\<forall>p \<in> set (posts example_store). title p \<noteq> t))
       \<or> (\<exists>i. cd_parent (data ?r) = Given i
             \<and> (\<forall>k \<in> set (comments example_store). comment_id k \<noteq> i))
       \<or> cd_content (data ?r) = Missing
       \<or> (\<exists>s. cd_content (data ?r) = Given s \<and> strip s = [])"
    by (simp add: example_request_def strip_def)
  from create_validation_error [OF r up t c, of 5] obtain errors where
    e: "CommentViewSet 5 example_store ?r = Some ((HTTP_400_BAD_REQUEST, Errors errors), example_store)"
    by blast
  have "comment_create 5 example_store ?r = Some ((HTTP_400_BAD_REQUEST,
            Errors [(''post'', DoesNotExist), (''content'', Blank), (''parent'', DoesNotExist)]),
           example_store)"
    by (simp add: comment_create_def CommentSerializer_is_valid_def slug_related_field_def
        char_field_def parent_field_def queryset_get_def strip_def example_request_def
        example_store_def example_post1_def example_post2_def example_comment1_def
        example_comment2_def example_comment3_def example_comment4_def)
  moreover have "CommentViewSet 5 example_store ?r = comment_create 5 example_store ?r"
    using r(1,3,2) by (rule comment_post_allowed)
  ultimately show ?thesis using e by simp
qed

text \<open>
  Claim C8. Deletion cascades in the store. A delete request of the author of a stored post
  is answered 204; the post is gone, and the comments that remain are exactly those that
  are not reached from a comment of the post along replies, so no comment of the post
  remains. A delete request of the author of a stored comment is answered 204; the comments
  that remain are exactly those that are not reached from the deleted comment along replies,
  so every comment of every chain of replies that starts at the deleted comment is gone.
  The rows are removed from the table, not marked.
\<close>

theorem cascade_delete:
  fixes r :: "comment_data request" and q :: "post_data request"
  shows
    "(request_method q = DELETE \<and> pk q = Some (post_id p) \<and> p \<in> set (posts st)
        \<and> distinct (map post_id (posts st)) \<and> user q = Some (post_author p) \<longrightarrow>
        (\<exists>st'. PostViewSet st q = ((HTTP_204_NO_CONTENT, Empty), st')
           \<and> posts st' = filter (\<lambda>x. post_id x \<noteq> post_id p) (posts st)
           \<and> comments st' =
               filter (\<lambda>k. comment_id k \<notin> (reply_rel st)\<^sup>* ``
                         (comment_id ` {k \<in> set (comments st). post k = post_id p}))
                 (comments st)
           \<and> (\<forall>k \<in> set (comments st'). post k \<noteq> post_id p)))
   \<and> (request_method r = DELETE \<and> pk r = Some (comment_id c) \<and> c \<in> set (get_queryset st r)
        \<and> unique_pk st \<and> user r = Some (author c) \<longrightarrow>
        (\<exists>st'. CommentViewSet n st r = Some ((HTTP_204_NO_CONTENT, Empty), st')
           \<and> comments st' =
               filter (\<lambda>k. (comment_id c, comment_id k) \<notin> (reply_rel st)\<^sup>*) (comments st)
           \<and> (\<forall>ks. chain st (c # ks) \<longrightarrow> (\<forall>k \<in> set (c # ks). k \<notin> set (comments st')))))"
proof (intro conjI impI)
  assume h: "request_method q = DELETE \<and> pk q = Some (post_id p) \<and> p \<in> set (posts st)
        \<and> distinct (map post_id (posts st)) \<and> user q = Some (post_author p)"
  then have e: "PostViewSet st q = ((HTTP_204_NO_CONTENT, Empty), delete_post st p)"
    by (intro post_destroy_author) simp_all
  have "post k \<noteq> post_id p" if "k \<in> set (comments (delete_post st p))" for k
  proof
    assume "post k = post_id p"
    moreover from that have k: "k \<in> set (comments st)"
      "comment_id k \<notin> (reply_rel st)\<^sup>* ``
          (comment_id ` {k \<in> set (comments st). post k = post_id p})"
      by (simp_all add: delete_post_comments)
    ultimately show False by blast
  qed
  moreover have "posts (delete_post st p) = filter (\<lambda>x. post_id x \<noteq> post_id p) (posts st)"
    by (simp add: delete_post_def Let_def)
  ultimately show "\<exists>st'. PostViewSet st q = ((HTTP_204_NO_CONTENT, Empty), st')
           \<and> posts st' = filter (\<lambda>x. post_id x \<noteq> post_id p) (posts st)
           \<and> comments st' =
               filter (\<lambda>k. comment_id k \<notin> (reply_rel st)\<^sup>* ``
                         (comment_id ` {k \<in> set (comments st). post k = post_id p}))
                 (comments st)
           \<and> (\<forall>k \<in> set (comments st'). post k \<noteq> post_id p)"
    using e delete_post_comments [of st p] by blast
next
  assume h: "request_method r = DELETE \<and> pk r = Some (comment_id c) \<and> c \<in> set (get_queryset st r)
        \<and> unique_pk st \<and> user r = Some (author c)"
  then have e: "CommentViewSet n st r = Some ((HTTP_204_NO_CONTENT, Empty), delete_comment st c)"
    by (intro comment_destroy_author) simp_all
  have "k \<notin> set (comments (delete_comment st c))"
    if "chain st (c # ks)" "k \<in> set (c # ks)" for ks k
    using chain_reachable [OF that] by (simp add: delete_comment_comments)
  then show "\<exists>st'. CommentViewSet n st r = Some ((HTTP_204_NO_CONTENT, Empty), st')
           \<and> comments st' =
               filter (\<lambda>k. (comment_id c, comment_id k) \<notin> (reply_rel st)\<^sup>*) (comments st)
           \<and> (\<forall>ks. chain st (c # ks) \<longrightarrow> (\<forall>k \<in> set (c # ks). k \<notin> set (comments st')))"
    using e delete_comment_comments [of st c] by blast
qed


theorem cascade_delete_witness:
  "(\<exists>st'. PostViewSet example_store (example_request DELETE (Some 1) (Some 1) example_post_data)
            = ((HTTP_204_NO_CONTENT, Empty), st')
          \<and> posts st' = [example_post2] \<and> comments st' = [])
   \<and> (\<exists>st'. CommentViewSet 5 example_store
              (example_request DELETE (Some 2) (Some 2) example_comment_data)
            = Some ((HTTP_204_NO_CONTENT, Empty), st')
          \<and> example_comment3 \<notin> set (comments st')
          \<and> comments st' = [example_comment1, example_comment4])"
proof -
  let ?q = "example_request DELETE (Some 1) (Some 1) example_post_data"
  let ?r = "example_request DELETE (Some 2) (Some 2) example_comment_data"
  have hq: "request_method ?q = DELETE \<and> pk ?q = Some (post_id example_post1)
      \<and> example_post1 \<in> set (posts example_store)
      \<and> distinct (map post_id (posts example_store))
      \<and> user ?q = Some (post_author example_post1)"
    by (simp add: example_request_def example_store_def example_post1_def example_post2_def)
  have hr: "request_method ?r = DELETE \<and> pk ?r = Some (comment_id example_comment2)
      \<and> example_comment2 \<in> set (get_queryset example_store ?r)
      \<and> unique_pk example_store \<and> user ?r = Some (author example_comment2)"
    by (simp add: example_request_def example_store_def get_queryset_def unique_pk_def
        example_comment1_def example_comment2_def example_comment3_def example_comment4_def)
  have ch: "chain example_store [example_comment2, example_comment3]"
    by (simp add: example_store_def example_comment2_def example_comment3_def)
  note t = cascade_delete [where q = ?q and p = example_post1 and st = example_store
      and r = ?r and c = example_comment2 and n = 5]
  from t [THEN conjunct1, THEN mp, OF hq] obtain st1 where
    p: "PostViewSet example_store ?q = ((HTTP_204_NO_CONTENT, Empty), st1)"
    by blast
  have "posts (snd (PostViewSet example_store ?q)) = [example_post2]"
    "comments (snd (PostViewSet example_store ?q)) = []"
    by code_simp+
  with p have a: "\<exists>st'. PostViewSet example_store ?q = ((HTTP_204_NO_CONTENT, Empty), st')
          \<and> posts st' = [example_post2] \<and> comments st' = []"
    by simp
  from t [THEN conjunct2, THEN mp, OF hr] obtain st2 where
    c: "CommentViewSet 5 example_store ?r = Some ((HTTP_204_NO_CONTENT, Empty), st2)"
    and d: "\<forall>ks. chain example_store (example_comment2 # ks) \<longrightarrow>
          (\<forall>k \<in> set (example_comment2 # ks). k \<notin> set (comments st2))"
    by blast
  from d [THEN spec, THEN mp, OF ch] have e: "example_comment3 \<notin> set (comments st2)"
    by simp
  have "map_option (\<lambda>x. comments (snd x)) (CommentViewSet 5 example_store ?r)
      = Some [example_comment1, example_comment4]"
    by code_simp
  with c have "comments st2 = [example_comment1, example_comment4]" by simp
  with c e have b: "\<exists>st'. CommentViewSet 5 example_store ?r
            = Some ((HTTP_204_NO_CONTENT, Empty), st')
          \<and> example_comment3 \<notin> set (comments st')
          \<and> comments st' = [example_comment1, example_comment4]"
    by blast
  from a b show ?thesis by (rule conjI)
qed





text \<open>
  Claim C10. The category and the tag endpoints declare no permission classes, so no request
  to them is answered 403 and the answer does not depend on the caller: an anonymous caller
  gets what an authenticated one gets. In particular a create request with a new valid
  name is answered 201 and appends the row, a partial update of a stored row with a valid
  name is answered 200 and renames it, and a delete request of a stored row is answered 204
  and removes it, whoever sends it. The default permission classes are the framework's own,
  \<open>AllowAny\<close>.
\<close>

theorem category_tag_unguarded:
  "fst (fst (CategoryViewSet st r)) \<noteq> HTTP_403_FORBIDDEN
   \<and> fst (fst (TagViewSet st r)) \<noteq> HTTP_403_FORBIDDEN
   \<and> CategoryViewSet st (r\<lparr>user := u\<rparr>) = CategoryViewSet st r
   \<and> TagViewSet st (r\<lparr>user := u\<rparr>) = TagViewSet st r
   \<and> (request_method r = POST \<and> pk r = None \<and> nd_name (data r) = Given s \<and> strip s \<noteq> []
        \<and> length (strip s) \<le> 100 \<and> strip s \<notin> set (map category_name (categories st)) \<longrightarrow>
        CategoryViewSet st r =
          ((HTTP_201_CREATED, NameBody (next_category_id st) (strip s)),
           st\<lparr>categories := categories st
                  @ [\<lparr>category_id = next_category_id st, category_name = strip s\<rparr>],
              next_category_id := Suc (next_category_id st)\<rparr>))
   \<and> (request_method r = PATCH \<and> pk r = Some (category_id g) \<and> g \<in> set (categories st)
        \<and> distinct (map category_id (categories st))
        \<and> nd_name (data r) = Given s \<and> strip s \<noteq> [] \<and> length (strip s) \<le> 100
        \<and> strip s \<notin> set (map category_name
                            (filter (\<lambda>h. category_id h \<noteq> category_id g) (categories st))) \<longrightarrow>
        CategoryViewSet st r =
          ((HTTP_200_OK, NameBody (category_id g) (strip s)),
           st\<lparr>categories :=
                map (\<lambda>h. if category_id h = category_id g then g\<lparr>category_name := strip s\<rparr> else h)
                  (categories st)\<rparr>))
   \<and> (request_method r = DELETE \<and> pk r = Some (category_id g) \<and> g \<in> set (categories st)
        \<and> distinct (map category_id (categories st)) \<longrightarrow>
        CategoryViewSet st r = ((HTTP_204_NO_CONTENT, Empty), delete_category st g))
   \<and> (request_method r = POST \<and> pk r = None \<and> nd_name (data r) = Given s \<and> strip s \<noteq> []
        \<and> length (strip s) \<le> 50 \<and> strip s \<notin> set (map tag_name (tags st)) \<longrightarrow>
        TagViewSet st r =
          ((HTTP_201_CREATED, NameBody (next_tag_id st) (strip s)),
           st\<lparr>tags := tags st @ [\<lparr>tag_id = next_tag_id st, tag_name = strip s\<rparr>],
              next_tag_id := Suc (next_tag_id st)\<rparr>))
   \<and> (request_method r = PATCH \<and> pk r = Some (tag_id t) \<and> t \<in> set (tags st)
        \<and> distinct (map tag_id (tags st))
        \<and> nd_name (data r) = Given s \<and> strip s \<noteq> [] \<and> length (strip s) \<le> 50
        \<and> strip s \<notin> set (map tag_name (filter (\<lambda>h. tag_id h \<noteq> tag_id t) (tags st))) \<longrightarrow>
        TagViewSet st r =
          ((HTTP_200_OK, NameBody (tag_id t) (strip s)),
           st\<lparr>tags := map (\<lambda>h. if tag_id h = tag_id t then t\<lparr>tag_name := strip s\<rparr> else h)
                         (tags st)\<rparr>))
   \<and> (request_method r = DELETE \<and> pk r = Some (tag_id t) \<and> t \<in> set (tags st)
        \<and> distinct (map tag_id (tags st)) \<longrightarrow>
        TagViewSet st r = ((HTTP_204_NO_CONTENT, Empty), delete_tag st t))"
proof (intro conjI impI)
  show "fst (fst (CategoryViewSet st r)) \<noteq> HTTP_403_FORBIDDEN"
    by (rule category_not_forbidden)
  show "fst (fst (TagViewSet st r)) \<noteq> HTTP_403_FORBIDDEN"
    by (rule tag_not_forbidden)
  show "CategoryViewSet st (r\<lparr>user := u\<rparr>) = CategoryViewSet st r"
    by (rule category_any_caller)
  show "TagViewSet st (r\<lparr>user := u\<rparr>) = TagViewSet st r"
    by (rule tag_any_caller)
qed (blast intro: category_create_ok category_update_ok category_delete_ok
      tag_create_ok tag_update_ok tag_delete_ok)+

theorem category_tag_unguarded_witness:
  "CategoryViewSet example_store (example_request POST None None \<lparr>nd_name = Given ''Science''\<rparr>)
     = ((HTTP_201_CREATED, NameBody 2 ''Science''),
        example_store\<lparr>categories := [\<lparr>category_id = 1, category_name = ''Tech''\<rparr>,
                                      \<lparr>category_id = 2, category_name = ''Science''\<rparr>],
                      next_category_id := 3\<rparr>)
   \<and> fst (CategoryViewSet example_store
            (example_request PATCH None (Some 1) \<lparr>nd_name = Given ''Science''\<rparr>))
     = (HTTP_200_OK, NameBody 1 ''Science'')
   \<and> fst (CategoryViewSet example_store
            (example_request DELETE None (Some 1) \<lparr>nd_name = Missing\<rparr>))
     = (HTTP_204_NO_CONTENT, Empty)
   \<and> categories (snd (CategoryViewSet example_store
            (example_request DELETE None (Some 1) \<lparr>nd_name = Missing\<rparr>))) = []
   \<and> fst (TagViewSet example_store (example_request POST None None \<lparr>nd_name = Given ''Science''\<rparr>))
     = (HTTP_201_CREATED, NameBody 2 ''Science'')
   \<and> fst (TagViewSet example_store
            (example_request PATCH None (Some 1) \<lparr>nd_name = Given ''Science''\<rparr>))
     = (HTTP_200_OK, NameBody 1 ''Science'')
   \<and> tags (snd (TagViewSet example_store
            (example_request DELETE None (Some 1) \<lparr>nd_name = Missing\<rparr>))) = []"
proof -
  let ?d = "\<lparr>nd_name = Given ''Science''\<rparr>"
  let ?g = "\<lparr>category_id = 1, category_name = ''Tech''\<rparr>"
  let ?t = "\<lparr>tag_id = 1, tag_name = ''News''\<rparr>"
  have s: "strip ''Science'' = ''Science''"
    by (simp add: strip_def whitespace_def)
  note t = category_tag_unguarded [where st = example_store and s = "''Science''"
      and g = ?g and t = ?t]
  have a: "CategoryViewSet example_store (example_request POST None None ?d)
     = ((HTTP_201_CREATED, NameBody 2 ''Science''),
        example_store\<lparr>categories := [\<lparr>category_id = 1, category_name = ''Tech''\<rparr>,
                                      \<lparr>category_id = 2, category_name = ''Science''\<rparr>],
                      next_category_id := 3\<rparr>)"
    using t [where r = "example_request POST None None ?d"]
    by (simp add: s example_request_def example_store_def)
  have b: "fst (CategoryViewSet example_store (example_request PATCH None (Some 1) ?d))
     = (HTTP_200_OK, NameBody 1 ''Science'')"
    using t [where r = "example_request PATCH None (Some 1) ?d"]
    by (simp add: s example_request_def example_store_def)
  have c: "fst (CategoryViewSet example_store
            (example_request DELETE None (Some 1) \<lparr>nd_name = Missing\<rparr>))
     = (HTTP_204_NO_CONTENT, Empty)"
    "categories (snd (CategoryViewSet example_store
            (example_request DELETE None (Some 1) \<lparr>nd_name = Missing\<rparr>))) = []"
    using t [where r = "example_request DELETE None (Some 1) \<lparr>nd_name = Missing\<rparr>"]
    by (simp_all add: example_request_def example_store_def delete_category_def)
  have d: "fst (TagViewSet example_store (example_request POST None None ?d))
     = (HTTP_201_CREATED, NameBody 2 ''Science'')"
    using t [where r = "example_request POST None None ?d"]
    by (simp add: s example_request_def example_store_def)
  have e: "fst (TagViewSet example_store (example_request PATCH None (Some 1) ?d))
     = (HTTP_200_OK, NameBody 1 ''Science'')"
    using t [where r = "example_request PATCH None (Some 1) ?d"]
    by (simp add: s example_request_def example_store_def)
  have f: "tags (snd (TagViewSet example_store
            (example_request DELETE None (Some 1) \<lparr>nd_name = Missing\<rparr>))) = []"
    using t [where r = "example_request DELETE None (Some 1) \<lparr>nd_name = Missing\<rparr>"]
    by (simp add: example_request_def example_store_def delete_tag_def)
  from a b c d e f show ?thesis by (intro conjI)
qed

end
